theory Spec2Isabelle
  imports Complex_Main "HOL-Library.Sublist"
begin

section \<open>The key-rotating prompt server (main.py)\<close>

text \<open>
  A shallow embedding of the \<^verbatim>\<open>/generate\<close> handler of main.py: the walk over the
  ordered key pool, the detection of rate limits, the one-off warning e-mail for the
  watched key indices and the SQLite table that remembers which indices were notified.

  What the handler does to the outside is recorded as a list of events (upstream calls,
  sleeps, e-mails, table writes), in the order the code performs them. What the outside
  answers is a parameter (the world): the response to each upstream call, whether an SMTP
  session goes through, and the clock.

  Two exceptions leave the handler and are part of the model: the \<^verbatim>\<open>ValueError\<close> of the
  e-mail library when a header value of the warning holds a line break (the message is
  built outside the \<^verbatim>\<open>try\<close> of \<^verbatim>\<open>send_warning_email\<close>), and the validation error of
  \<^verbatim>\<open>GeminiResponse\<close>, whose field \<^verbatim>\<open>raw_response\<close> has the type \<^verbatim>\<open>Optional[dict]\<close>, when the
  payload of a 2xx response is neither a JSON object nor null.

  Not modelled: the parsing and printing of JSON (a response carries the text that the
  keyword scan sees, and whether the payload is a JSON object, null or another value),
  text outside ASCII, the rounding of floating point (delays are exact reals), the texts
  of the e-mail, failures of SQLite, and concurrent requests (requests run one after
  another).
\<close>

subsection \<open>Configuration (the module-level constants)\<close>

text \<open>
  The constants that main.py reads from the environment, and \<^verbatim>\<open>WATCH_KEYS_INDICES\<close>,
  which the source fixes to {5, 8, 10}: a field here, so that the scenarios of the
  specification with other watched sets can be stated.
\<close>

record config =
  GEMINI_KEYS :: "string list"
  SMTP_HOST :: "string option"
  SMTP_USER :: "string option"
  SMTP_PASS :: "string option"
  DEFAULT_WARNING_TO :: "string option"
  WATCH_KEYS_INDICES :: "nat set"
  MAX_TOTAL_RETRIES_PER_PROMPT :: int
  BASE_BACKOFF_SECONDS :: real

text \<open>Python's truth value of an optional string: \<^verbatim>\<open>None\<close> and \<^verbatim>\<open>""\<close> are false.\<close>

fun truthy :: "string option \<Rightarrow> bool" where
  "truthy None = False"
| "truthy (Some s) = (s \<noteq> [])"

text \<open>Python's \<^verbatim>\<open>a or b\<close> on optional strings.\<close>

definition py_or :: "string option \<Rightarrow> string option \<Rightarrow> string option" where
  "py_or a b = (if truthy a then a else b)"

subsection \<open>The notification table\<close>

text \<open>
  \<^verbatim>\<open>key_notifications (key_index INTEGER PRIMARY KEY, notified_at TEXT)\<close>: at most one
  row per key index, so a map from the index to the time stamp.
\<close>

type_synonym ledger = "nat \<rightharpoonup> string"

definition get_notified_keys :: "ledger \<Rightarrow> nat set" where
  "get_notified_keys db = dom db"

text \<open>\<^verbatim>\<open>INSERT OR REPLACE\<close>: the row of the index is overwritten.\<close>

definition mark_key_notified :: "ledger \<Rightarrow> nat \<Rightarrow> string \<Rightarrow> ledger" where
  "mark_key_notified db key_index now = db(key_index \<mapsto> now)"

subsection \<open>Requests, responses, the world\<close>

record generate_request =
  prompt :: string
  email_to :: "string option"
  metadata :: "string option"

text \<open>
  The payload of a response: \<^verbatim>\<open>resp.json()\<close>, or \<^verbatim>\<open>{"raw_text": resp.text}\<close> when the
  body does not parse. It is a JSON object (a dict), the JSON value null (\<^verbatim>\<open>None\<close>), or
  another JSON value (a list, a string, a number, a boolean). An object and another
  value are carried as the text \<^verbatim>\<open>body_str\<close> that the handler derives from them:
  \<^verbatim>\<open>json.dumps(payload)\<close> for a dict, \<^verbatim>\<open>str(payload)\<close> otherwise; \<^verbatim>\<open>str(None)\<close> is the
  text "None".
\<close>

datatype payload = JsonObject string | JsonNull | JsonOther string

fun serialized :: "payload \<Rightarrow> string" where
  "serialized (JsonObject text) = text"
| "serialized JsonNull = ''None''"
| "serialized (JsonOther text) = text"

text \<open>
  The outcome of \<^verbatim>\<open>call_gemini_with_key\<close>: \<^verbatim>\<open>httpx.RequestError\<close> with its message, or
  a response with its status code and its payload.
\<close>

datatype call_result = RequestError string | Response int payload

text \<open>The exceptions that the handler does not catch.\<close>

datatype python_error = ValueError | ValidationError

text \<open>
  The world of one request: \<open>upstream n key\<close> is the outcome of the \<open>n\<close>-th upstream call
  of the request, made with \<open>key\<close>; \<open>smtp_session idx\<close> tells whether the SMTP session
  that carries the warning for key index \<open>idx\<close> completes (false: it raises);
  \<open>utcnow idx\<close> is the clock read when the index is marked.
\<close>

record world =
  upstream :: "nat \<Rightarrow> string \<Rightarrow> call_result"
  smtp_session :: "nat \<Rightarrow> bool"
  utcnow :: "nat \<Rightarrow> string"

datatype event =
    Call nat string
  | Sleep real
  | SendWarningEmail nat bool
  | SendWarningEmailRaised nat
  | SmtpSession nat
  | MarkKeyNotified nat

text \<open>
  \<open>Call idx key\<close>: an upstream call with the key at 1-based position \<open>idx\<close>.
  \<open>SendWarningEmail idx sent\<close>: \<^verbatim>\<open>send_warning_email\<close> was called for \<open>idx\<close> and returned
  \<open>sent\<close>. \<open>SendWarningEmailRaised idx\<close>: it was called for \<open>idx\<close> and raised.
  \<open>SmtpSession idx\<close>: the function went as far as opening the SMTP session.
\<close>

datatype last_error =
    NetworkError string
  | RateLimitFor nat
  | StatusError int payload

datatype detail =
    NoKeysConfigured
  | FailedWithAnyKey "last_error option"

record gemini_response =
  success :: bool
  key_used_index :: "nat option"
  raw_response :: "payload option"
  error :: "string option"

text \<open>
  What the client gets: the response model, an \<^verbatim>\<open>HTTPException\<close> raised by the handler,
  or the answer of the server to an exception that the handler did not catch.
\<close>

datatype http_result =
    Ok gemini_response
  | HTTPException int detail
  | Unhandled python_error

subsection \<open>The warning e-mail\<close>

text \<open>
  Assigning a header of an \<^verbatim>\<open>EmailMessage\<close> raises \<^verbatim>\<open>ValueError\<close> when
  \<^verbatim>\<open>len(value.splitlines()) > 1\<close>. On ASCII text the line boundaries of
  \<^verbatim>\<open>str.splitlines\<close> are the characters 10 to 13 and 28 to 30, with CR LF counting as
  one; a boundary at the very end of the text opens no further line.
\<close>

definition line_boundary :: "char \<Rightarrow> bool" where
  "line_boundary c =
     (let n = (of_char c :: nat) in (10 \<le> n \<and> n \<le> 13) \<or> (28 \<le> n \<and> n \<le> 30))"

fun multi_line :: "string \<Rightarrow> bool" where
  "multi_line [] = False"
| "multi_line [c] = False"
| "multi_line (c # d # cs) =
     (if line_boundary c then
        (if of_char c = (13 :: nat) \<and> of_char d = (10 :: nat) then cs \<noteq> [] else True)
      else multi_line (d # cs))"

fun header_text :: "string option \<Rightarrow> string" where
  "header_text None = []"
| "header_text (Some s) = s"

text \<open>
  \<^verbatim>\<open>send_warning_email(subject, body, to_email)\<close>; subject and body name the key index,
  which stands for them here (the subject is one line). Without host, user, password and
  recipient it returns False at once. Then the message is built: the headers From
  (\<^verbatim>\<open>SMTP_USER\<close>) and To (\<^verbatim>\<open>to_email\<close>) are assigned, outside the \<^verbatim>\<open>try\<close>, so the
  \<^verbatim>\<open>ValueError\<close> leaves the function. Then the SMTP session is opened, and any exception
  in it is caught and turned into False.
\<close>

definition send_warning_email :: "config \<Rightarrow> world \<Rightarrow> nat \<Rightarrow> string option
    \<Rightarrow> (python_error + bool) \<times> event list" where
  "send_warning_email cfg w idx to_email =
     (if \<not> (truthy (SMTP_HOST cfg) \<and> truthy (SMTP_USER cfg) \<and> truthy (SMTP_PASS cfg) \<and> truthy to_email)
      then (Inr False, [])
      else if multi_line (header_text (SMTP_USER cfg)) \<or> multi_line (header_text to_email)
      then (Inl ValueError, [])
      else if smtp_session w idx then (Inr True, [SmtpSession idx])
      else (Inr False, [SmtpSession idx]))"

subsection \<open>Rate-limit detection\<close>

text \<open>\<^verbatim>\<open>str.lower()\<close>, on ASCII text.\<close>

definition lower_chr :: "char \<Rightarrow> char" where
  "lower_chr c =
     (let n = (of_char c :: nat) in if 65 \<le> n \<and> n \<le> 90 then char_of (n + 32) else c)"

definition str_lower :: "string \<Rightarrow> string" where
  "str_lower s = map lower_chr s"

text \<open>
  The flag \<^verbatim>\<open>is_rate_limit\<close> of the handler, computed for every response that is not
  2xx: status 429, or one of four keywords in the lower-cased body text.
\<close>

definition is_rate_limit :: "int \<Rightarrow> string \<Rightarrow> bool" where
  "is_rate_limit status body_str =
     (if status = 429 then True
      else (let lower = str_lower body_str in
            sublist ''ratelimit'' lower \<or> sublist ''rate limit'' lower
            \<or> sublist ''ratelimitexceeded'' lower \<or> sublist ''quota'' lower))"

subsection \<open>The loop over the keys\<close>

text \<open>The delay \<^verbatim>\<open>BASE_BACKOFF_SECONDS * (1.5 ** (total_attempts - 1))\<close>.\<close>

definition backoff :: "config \<Rightarrow> nat \<Rightarrow> real" where
  "backoff cfg total_attempts = BASE_BACKOFF_SECONDS cfg * (3 / 2) ^ (total_attempts - 1)"

text \<open>
  The alert block of the rate-limit branch: the exception that leaves it, if any, the
  events and the table after it. The call of \<^verbatim>\<open>send_warning_email\<close> is not inside a
  \<^verbatim>\<open>try\<close>.
\<close>

definition notify_watched :: "config \<Rightarrow> world \<Rightarrow> string option \<Rightarrow> nat set \<Rightarrow> nat \<Rightarrow> ledger
    \<Rightarrow> python_error option \<times> event list \<times> ledger" where
  "notify_watched cfg w recipient notified_keys idx db =
     (if idx \<in> WATCH_KEYS_INDICES cfg \<and> idx \<notin> notified_keys then
        (case send_warning_email cfg w idx recipient of
           (Inl e, evs) \<Rightarrow> (Some e, evs @ [SendWarningEmailRaised idx], db)
         | (Inr sent, evs) \<Rightarrow>
             if sent then (None, evs @ [SendWarningEmail idx True, MarkKeyNotified idx],
                           mark_key_notified db idx (utcnow w idx))
             else (None, evs @ [SendWarningEmail idx False], db))
      else (None, [], db))"

text \<open>
  The validation of the field \<^verbatim>\<open>raw_response: Optional[dict]\<close> when
  \<^verbatim>\<open>GeminiResponse(success=True, key_used_index=idx, raw_response=payload)\<close> is built: a
  dict and \<^verbatim>\<open>None\<close> are accepted, another value raises the validation error of pydantic.
  (The few values that pydantic 1 converts by \<^verbatim>\<open>dict(v)\<close>, as the empty list, count as the
  object they are converted to.)
\<close>

fun validate_raw_response :: "payload \<Rightarrow> python_error + payload option" where
  "validate_raw_response (JsonObject text) = Inr (Some (JsonObject text))"
| "validate_raw_response JsonNull = Inr None"
| "validate_raw_response (JsonOther text) = Inl ValidationError"

text \<open>
  How one pass through the loop body ends; \<open>Return\<close> carries the fields \<^verbatim>\<open>key_used_index\<close>
  and \<^verbatim>\<open>raw_response\<close> of the response.
\<close>

datatype flow = Return nat "payload option" | Continue | Break | Raise python_error

record step =
  flow :: flow
  events :: "event list"
  attempts :: nat
  err :: "last_error option"
  table :: ledger

text \<open>
  One pass through the body of \<^verbatim>\<open>for idx, key in enumerate(GEMINI_KEYS, start=1)\<close>, from
  the values of \<^verbatim>\<open>total_attempts\<close> and \<^verbatim>\<open>last_error\<close> and the table before it. In
  the 2xx branch \<^verbatim>\<open>GeminiResponse(..., raw_response=payload)\<close> is built, which raises for
  a payload that is neither a dict nor \<^verbatim>\<open>None\<close>.
\<close>

definition loop_body :: "config \<Rightarrow> world \<Rightarrow> string option \<Rightarrow> nat set \<Rightarrow> nat \<Rightarrow> string
    \<Rightarrow> nat \<Rightarrow> last_error option \<Rightarrow> ledger \<Rightarrow> step" where
  "loop_body cfg w recipient notified_keys idx key total_attempts last_err db =
     (if int total_attempts \<ge> MAX_TOTAL_RETRIES_PER_PROMPT cfg then
        \<lparr>flow = Break, events = [], attempts = total_attempts, err = last_err, table = db\<rparr>
      else
        (let total_attempts = total_attempts + 1 in
         case upstream w total_attempts key of
           RequestError e \<Rightarrow>
             \<lparr>flow = Continue, events = [Call idx key, Sleep (backoff cfg total_attempts)],
              attempts = total_attempts, err = Some (NetworkError e), table = db\<rparr>
         | Response status payload \<Rightarrow>
             if 200 \<le> status \<and> status < 300 then
               (case validate_raw_response payload of
                  Inr raw \<Rightarrow>
                    \<lparr>flow = Return idx raw, events = [Call idx key],
                     attempts = total_attempts, err = last_err, table = db\<rparr>
                | Inl e \<Rightarrow>
                    \<lparr>flow = Raise e, events = [Call idx key],
                     attempts = total_attempts, err = last_err, table = db\<rparr>)
             else if is_rate_limit status (serialized payload) then
               (case notify_watched cfg w recipient notified_keys idx db of
                  (Some e, evs, db') \<Rightarrow>
                    \<lparr>flow = Raise e, events = Call idx key # evs,
                     attempts = total_attempts, err = Some (RateLimitFor idx), table = db'\<rparr>
                | (None, evs, db') \<Rightarrow>
                    \<lparr>flow = Continue,
                     events = Call idx key # evs @ [Sleep (backoff cfg total_attempts)],
                     attempts = total_attempts, err = Some (RateLimitFor idx), table = db'\<rparr>)
             else if status = 401 \<or> status = 403 then
               \<lparr>flow = Continue, events = [Call idx key, Sleep (1 / 5)],
                attempts = total_attempts, err = Some (StatusError status payload), table = db\<rparr>
             else if 500 \<le> status \<and> status < 600 then
               \<lparr>flow = Continue, events = [Call idx key, Sleep (backoff cfg total_attempts)],
                attempts = total_attempts, err = Some (StatusError status payload), table = db\<rparr>
             else
               \<lparr>flow = Break, events = [Call idx key],
                attempts = total_attempts, err = Some (StatusError status payload), table = db\<rparr>))"

record run =
  returned :: "(nat \<times> payload option) option"
  raised :: "python_error option"
  trace :: "event list"
  final_error :: "last_error option"
  ledger_after :: ledger

text \<open>
  The loop: \<open>returned\<close> is the key index and payload of the \<^verbatim>\<open>return\<close> inside the loop,
  \<open>raised\<close> the exception that left it; both are None when the loop is left by
  \<^verbatim>\<open>break\<close> or by running out of keys.
\<close>

fun walk :: "config \<Rightarrow> world \<Rightarrow> string option \<Rightarrow> nat set \<Rightarrow> (nat \<times> string) list
    \<Rightarrow> nat \<Rightarrow> last_error option \<Rightarrow> ledger \<Rightarrow> run" where
  "walk cfg w recipient notified_keys [] total_attempts last_err db =
     \<lparr>returned = None, raised = None, trace = [], final_error = last_err, ledger_after = db\<rparr>"
| "walk cfg w recipient notified_keys ((idx, key) # rest) total_attempts last_err db =
     (let s = loop_body cfg w recipient notified_keys idx key total_attempts last_err db in
      case flow s of
        Return i raw \<Rightarrow>
          \<lparr>returned = Some (i, raw), raised = None, trace = events s,
           final_error = err s, ledger_after = table s\<rparr>
      | Break \<Rightarrow>
          \<lparr>returned = None, raised = None, trace = events s, final_error = err s,
           ledger_after = table s\<rparr>
      | Raise e \<Rightarrow>
          \<lparr>returned = None, raised = Some e, trace = events s, final_error = err s,
           ledger_after = table s\<rparr>
      | Continue \<Rightarrow>
          (let r = walk cfg w recipient notified_keys rest (attempts s) (err s) (table s)
           in r\<lparr>trace := events s @ trace r\<rparr>))"

subsection \<open>The handler\<close>

record served =
  result :: http_result
  effects :: "event list"
  ledger_end :: ledger

definition generate :: "config \<Rightarrow> world \<Rightarrow> generate_request \<Rightarrow> ledger \<Rightarrow> served" where
  "generate cfg w req db =
     (if GEMINI_KEYS cfg = [] then
        \<lparr>result = HTTPException 500 NoKeysConfigured, effects = [], ledger_end = db\<rparr>
      else
        (let recipient = py_or (email_to req) (DEFAULT_WARNING_TO cfg);
             notified_keys = get_notified_keys db;
             r = walk cfg w recipient notified_keys (enumerate 1 (GEMINI_KEYS cfg)) 0 None db
         in case raised r of
              Some e \<Rightarrow>
                \<lparr>result = Unhandled e, effects = trace r, ledger_end = ledger_after r\<rparr>
            | None \<Rightarrow>
                (case returned r of
                   Some (idx, raw) \<Rightarrow>
                     \<lparr>result = Ok \<lparr>success = True, key_used_index = Some idx,
                                    raw_response = raw, error = None\<rparr>,
                      effects = trace r, ledger_end = ledger_after r\<rparr>
                 | None \<Rightarrow>
                     \<lparr>result = HTTPException 502 (FailedWithAnyKey (final_error r)),
                      effects = trace r, ledger_end = ledger_after r\<rparr>)))"

text \<open>Requests served one after another, each in its own world, on the same table.\<close>

fun serve :: "config \<Rightarrow> (world \<times> generate_request) list \<Rightarrow> ledger \<Rightarrow> served list \<times> ledger" where
  "serve cfg [] db = ([], db)"
| "serve cfg ((w, req) # rest) db =
     (let s = generate cfg w req db in
      case serve cfg rest (ledger_end s) of (ss, db') \<Rightarrow> (s # ss, db'))"

subsection \<open>Reading the handler's behaviour\<close>

text \<open>
  The branch of the loop body that an outcome of the upstream call takes, in the order
  in which the handler tests: 2xx first, then the rate-limit flag (status 429 or a
  keyword in the body), then 401 and 403, then 5xx, and what is left.
\<close>

datatype verdict = Success | RateLimited | AuthFailure | ServerError | TransportError | OtherFailure

fun classify :: "call_result \<Rightarrow> verdict" where
  "classify (RequestError e) = TransportError"
| "classify (Response status payload) =
     (if 200 \<le> status \<and> status < 300 then Success
      else if is_rate_limit status (serialized payload) then RateLimited
      else if status = 401 \<or> status = 403 then AuthFailure
      else if 500 \<le> status \<and> status < 600 then ServerError
      else OtherFailure)"

text \<open>
  The classifier as section 4.3 of the specification words it: the status decides
  first, and the body is looked at for the statuses that are left.
\<close>

definition spec_keyword :: "string \<Rightarrow> bool" where
  "spec_keyword body_str =
     (sublist ''ratelimit'' (str_lower body_str) \<or> sublist ''rate limit'' (str_lower body_str)
      \<or> sublist ''quota'' (str_lower body_str))"


text \<open>The key indices of the upstream calls of a trace, in order.\<close>

fun calls :: "event list \<Rightarrow> nat list" where
  "calls [] = []"
| "calls (Call idx key # es) = idx # calls es"
| "calls (e # es) = calls es"

text \<open>
  How often \<^verbatim>\<open>send_warning_email\<close> was called for a key index (whether it returned or
  raised), and how often the warning was sent.
\<close>

fun alerts :: "nat \<Rightarrow> event list \<Rightarrow> nat" where
  "alerts idx [] = 0"
| "alerts idx (SendWarningEmail i sent # es) = (if i = idx then 1 else 0) + alerts idx es"
| "alerts idx (SendWarningEmailRaised i # es) = (if i = idx then 1 else 0) + alerts idx es"
| "alerts idx (e # es) = alerts idx es"

fun delivered :: "nat \<Rightarrow> event list \<Rightarrow> nat" where
  "delivered idx [] = 0"
| "delivered idx (SendWarningEmail i sent # es) =
     (if i = idx \<and> sent then 1 else 0) + delivered idx es"
| "delivered idx (e # es) = delivered idx es"

text \<open>The upstream calls and the sleeps of a trace: what the walk over the keys does.\<close>

fun dispatch :: "event list \<Rightarrow> event list" where
  "dispatch [] = []"
| "dispatch (Call idx key # es) = Call idx key # dispatch es"
| "dispatch (Sleep d # es) = Sleep d # dispatch es"
| "dispatch (e # es) = dispatch es"

text \<open>
  \<open>slept_before d n es\<close>: somewhere in the trace a sleep of \<open>d\<close> seconds is directly
  followed by the upstream call with the key of index \<open>n\<close>.
\<close>

fun slept_before :: "real \<Rightarrow> nat \<Rightarrow> event list \<Rightarrow> bool" where
  "slept_before d n (Sleep d' # Call i key # es) =
     ((d' = d \<and> i = n) \<or> slept_before d n (Call i key # es))"
| "slept_before d n (e # es) = slept_before d n es"
| "slept_before d n [] = False"

text \<open>
  \<open>no_delivery es\<close>: the trace has no SMTP session, no warning e-mail that was sent, no
  warning e-mail whose message raised, and no write to the table.
\<close>

fun no_delivery :: "event list \<Rightarrow> bool" where
  "no_delivery [] = True"
| "no_delivery (SmtpSession idx # es) = False"
| "no_delivery (MarkKeyNotified idx # es) = False"
| "no_delivery (SendWarningEmail idx sent # es) = (\<not> sent \<and> no_delivery es)"
| "no_delivery (SendWarningEmailRaised idx # es) = False"
| "no_delivery (e # es) = no_delivery es"

text \<open>
  The guard of \<^verbatim>\<open>send_warning_email\<close> for the recipient of a request
  (\<^verbatim>\<open>req.email_to or DEFAULT_WARNING_TO\<close>): host, user, password and recipient are there.
\<close>

definition can_send :: "config \<Rightarrow> generate_request \<Rightarrow> bool" where
  "can_send cfg req =
     (truthy (SMTP_HOST cfg) \<and> truthy (SMTP_USER cfg) \<and> truthy (SMTP_PASS cfg)
      \<and> truthy (py_or (email_to req) (DEFAULT_WARNING_TO cfg)))"

text \<open>
  Building the warning e-mail raises: the guard of \<^verbatim>\<open>send_warning_email\<close> is passed and
  the sender or the recipient holds a line break.
\<close>

definition message_raises :: "config \<Rightarrow> string option \<Rightarrow> bool" where
  "message_raises cfg to_email =
     (truthy (SMTP_HOST cfg) \<and> truthy (SMTP_USER cfg) \<and> truthy (SMTP_PASS cfg) \<and> truthy to_email
      \<and> (multi_line (header_text (SMTP_USER cfg)) \<or> multi_line (header_text to_email)))"

text \<open>All events of a list of served requests, in order.\<close>

definition history :: "served list \<Rightarrow> event list" where
  "history ss = concat (map effects ss)"

subsection \<open>Example configurations and worlds\<close>

text \<open>
  A pool of three keys with the constants of the source (\<^verbatim>\<open>WATCH_KEYS_INDICES = {5, 8, 10}\<close>,
  30 attempts, base delay 1.0), and a world in which the first key answers 429, the
  second 503 and the third 200.
\<close>

definition pool3_cfg :: config where
  "pool3_cfg = \<lparr>GEMINI_KEYS = [''k1'', ''k2'', ''k3''], SMTP_HOST = Some ''smtp.example.org'',
     SMTP_USER = Some ''rotator'', SMTP_PASS = Some ''secret'',
     DEFAULT_WARNING_TO = Some ''ops@example.org'', WATCH_KEYS_INDICES = {5, 8, 10},
     MAX_TOTAL_RETRIES_PER_PROMPT = 30, BASE_BACKOFF_SECONDS = 1\<rparr>"

definition pool3_world :: world where
  "pool3_world = \<lparr>upstream = (\<lambda>n key. if n = 1 then Response 429 (JsonOther ''Too Many Requests'')
                                   else if n = 2 then Response 503 (JsonOther ''Service Unavailable'')
                                   else Response 200 (JsonObject ''{\"text\": \"hello\"}'')),
     smtp_session = (\<lambda>idx. True), utcnow = (\<lambda>idx. ''2024-01-01T00:00:00Z'')\<rparr>"

definition plain_request :: generate_request where
  "plain_request = \<lparr>prompt = ''hello'', email_to = None, metadata = None\<rparr>"

text \<open>The same pool where the second key answers 404 with a body without keyword.\<close>

definition notfound_world :: world where
  "notfound_world = \<lparr>upstream = (\<lambda>n key. if n = 1 then Response 429 (JsonOther ''Too Many Requests'')
                                      else if n = 2 then Response 404 (JsonOther ''Not Found'')
                                      else Response 200 (JsonObject ''{\"text\": \"hello\"}'')),
     smtp_session = (\<lambda>idx. True), utcnow = (\<lambda>idx. ''2024-01-01T00:00:00Z'')\<rparr>"



text \<open>No key configured.\<close>

definition no_keys_cfg :: config where
  "no_keys_cfg = pool3_cfg\<lparr>GEMINI_KEYS := []\<rparr>"

text \<open>
  A pool of one key whose index is watched, with a budget of three attempts; worlds in
  which every call is answered by 429, with SMTP working and with SMTP failing; and a
  world in which every call is answered by 403 with a body that mentions a quota.
\<close>

definition single_cfg :: config where
  "single_cfg = \<lparr>GEMINI_KEYS = [''k1''], SMTP_HOST = Some ''smtp.example.org'',
     SMTP_USER = Some ''rotator'', SMTP_PASS = Some ''secret'',
     DEFAULT_WARNING_TO = Some ''ops@example.org'', WATCH_KEYS_INDICES = {1},
     MAX_TOTAL_RETRIES_PER_PROMPT = 3, BASE_BACKOFF_SECONDS = 1\<rparr>"

definition always429_world :: world where
  "always429_world = \<lparr>upstream = (\<lambda>n key. Response 429 (JsonOther ''Too Many Requests'')),
     smtp_session = (\<lambda>idx. True), utcnow = (\<lambda>idx. ''2024-01-01T00:00:00Z'')\<rparr>"

definition smtp_down_world :: world where
  "smtp_down_world = always429_world\<lparr>smtp_session := (\<lambda>idx. False)\<rparr>"


text \<open>A request whose recipient holds a line feed between two characters.\<close>

definition linefeed_request :: generate_request where
  "linefeed_request =
     \<lparr>prompt = ''hello'', email_to = Some [CHR ''a'', CHR 0x0A, CHR ''b''], metadata = None\<rparr>"



text \<open>The pool of three keys with a budget of two attempts.\<close>

definition tight_cfg :: config where
  "tight_cfg = pool3_cfg\<lparr>MAX_TOTAL_RETRIES_PER_PROMPT := 2\<rparr>"

text \<open>The one-key pool without an SMTP host.\<close>

definition no_smtp_cfg :: config where
  "no_smtp_cfg = single_cfg\<lparr>SMTP_HOST := None\<rparr>"

section \<open>Lemmas\<close>

subsection \<open>Traces\<close>

lemma calls_append: "calls (xs @ ys) = calls xs @ calls ys"
  by (induction xs rule: calls.induct) simp_all

lemma alerts_append: "alerts i (xs @ ys) = alerts i xs + alerts i ys"
  by (induction i xs rule: alerts.induct) simp_all

lemma delivered_append: "delivered i (xs @ ys) = delivered i xs + delivered i ys"
  by (induction i xs rule: delivered.induct) simp_all

lemma dispatch_append: "dispatch (xs @ ys) = dispatch xs @ dispatch ys"
  by (induction xs rule: dispatch.induct) simp_all

subsection \<open>One pass through the loop body\<close>

lemma notify_watched_calls: "calls (fst (snd (notify_watched cfg w rcp nk idx db))) = []"
  by (simp add: notify_watched_def send_warning_email_def split: prod.splits sum.splits)

lemma notify_watched_dispatch: "dispatch (fst (snd (notify_watched cfg w rcp nk idx db))) = []"
  by (simp add: notify_watched_def send_warning_email_def split: prod.splits sum.splits)

lemma loop_body_budget:
  "MAX_TOTAL_RETRIES_PER_PROMPT cfg \<le> int t \<Longrightarrow>
   loop_body cfg w rcp nk idx key t l db =
     \<lparr>flow = Break, events = [], attempts = t, err = l, table = db\<rparr>"
  by (simp add: loop_body_def)

lemma loop_body_calls:
  "calls (events (loop_body cfg w rcp nk idx key t l db)) =
     (if MAX_TOTAL_RETRIES_PER_PROMPT cfg \<le> int t then [] else [idx])"
  using notify_watched_calls [of cfg w rcp nk idx db]
  by (auto simp add: loop_body_def Let_def calls_append
      split: call_result.splits prod.splits sum.splits option.splits)

lemma loop_body_attempts:
  "attempts (loop_body cfg w rcp nk idx key t l db) =
     (if MAX_TOTAL_RETRIES_PER_PROMPT cfg \<le> int t then t else Suc t)"
  by (auto simp add: loop_body_def Let_def
      split: call_result.splits prod.splits sum.splits option.splits)

lemma loop_body_continue:
  "flow (loop_body cfg w rcp nk idx key t l db) = Continue \<Longrightarrow>
   \<not> MAX_TOTAL_RETRIES_PER_PROMPT cfg \<le> int t"
  by (auto simp add: loop_body_def)

lemma notify_watched_no_call: "Call j k \<notin> set (fst (snd (notify_watched cfg w rcp nk idx db)))"
  by (simp add: notify_watched_def send_warning_email_def split: prod.splits sum.splits)

lemma loop_body_call_mem:
  "Call j k \<in> set (events (loop_body cfg w rcp nk idx key t l db)) \<longleftrightarrow>
     j = idx \<and> k = key \<and> \<not> MAX_TOTAL_RETRIES_PER_PROMPT cfg \<le> int t"
  using notify_watched_no_call [of j k cfg w rcp nk idx db]
  by (auto simp add: loop_body_def Let_def
      split: call_result.splits prod.splits sum.splits option.splits)


lemma loop_body_other:
  "\<not> MAX_TOTAL_RETRIES_PER_PROMPT cfg \<le> int t \<Longrightarrow> upstream w (Suc t) key = Response s p \<Longrightarrow>
   classify (Response s p) = OtherFailure \<Longrightarrow>
   loop_body cfg w rcp nk idx key t l db =
     \<lparr>flow = Break, events = [Call idx key], attempts = Suc t,
      err = Some (StatusError s p), table = db\<rparr>"
  by (auto simp add: loop_body_def split: if_splits)

subsection \<open>The walk: calls, success, fatal failure, budget\<close>

lemma walk_Cons:
  "walk cfg w rcp nk ((Suc t, key) # rest) t l db =
     (let s = loop_body cfg w rcp nk (Suc t) key t l db in
      case flow s of
        Return i raw \<Rightarrow>
          \<lparr>returned = Some (i, raw), raised = None, trace = events s,
           final_error = err s, ledger_after = table s\<rparr>
      | Break \<Rightarrow>
          \<lparr>returned = None, raised = None, trace = events s, final_error = err s,
           ledger_after = table s\<rparr>
      | Raise e \<Rightarrow>
          \<lparr>returned = None, raised = Some e, trace = events s, final_error = err s,
           ledger_after = table s\<rparr>
      | Continue \<Rightarrow>
          (let r = walk cfg w rcp nk rest (Suc t) (err s) (table s)
           in r\<lparr>trace := events s @ trace r\<rparr>))"
  by (auto simp add: Let_def loop_body_attempts dest: loop_body_continue split: flow.splits)

declare walk.simps(2) [simp del]

lemma walk_call_ge:
  "Call j k \<in> set (trace (walk cfg w rcp nk (enumerate (Suc t) keys) t l db)) \<Longrightarrow> Suc t \<le> j"
proof (induction keys arbitrary: t l db)
  case Nil
  then show ?case by simp
next
  case (Cons key keys)
  let ?s = "loop_body cfg w rcp nk (Suc t) key t l db"
  show ?case
  proof (cases "flow ?s")
    case Continue
    with Cons.prems have "Call j k \<in> set (events ?s) \<or>
        Call j k \<in> set (trace (walk cfg w rcp nk (enumerate (Suc (Suc t)) keys) (Suc t) (err ?s) (table ?s)))"
      by (simp add: walk_Cons Let_def)
    then show ?thesis
      using Cons.IH [of "Suc t" "err ?s" "table ?s"] by (auto simp add: loop_body_call_mem)
  qed (use Cons.prems in \<open>auto simp add: walk_Cons Let_def loop_body_call_mem\<close>)
qed


lemma walk_other_failure:
  "Call i k \<in> set (trace (walk cfg w rcp nk (enumerate (Suc t) keys) t l db)) \<Longrightarrow>
   upstream w i k = Response s p \<Longrightarrow> classify (Response s p) = OtherFailure \<Longrightarrow>
   returned (walk cfg w rcp nk (enumerate (Suc t) keys) t l db) = None \<and>
   raised (walk cfg w rcp nk (enumerate (Suc t) keys) t l db) = None \<and>
   final_error (walk cfg w rcp nk (enumerate (Suc t) keys) t l db) = Some (StatusError s p) \<and>
   calls (trace (walk cfg w rcp nk (enumerate (Suc t) keys) t l db)) = [Suc t..<Suc i]"
proof (induction keys arbitrary: t l db)
  case Nil
  then show ?case by simp
next
  case (Cons key keys)
  let ?s = "loop_body cfg w rcp nk (Suc t) key t l db"
  let ?r = "walk cfg w rcp nk (enumerate (Suc (Suc t)) keys) (Suc t) (err ?s) (table ?s)"
  show ?case
  proof (cases "Call i k \<in> set (events ?s)")
    case True
    then have here: "i = Suc t" "k = key" "\<not> MAX_TOTAL_RETRIES_PER_PROMPT cfg \<le> int t"
      by (simp_all add: loop_body_call_mem)
    with Cons.prems have "?s = \<lparr>flow = Break, events = [Call (Suc t) key],
        attempts = Suc t, err = Some (StatusError s p), table = db\<rparr>"
      by (simp add: loop_body_other)
    then show ?thesis
      using here by (simp add: walk_Cons)
  next
    case False
    with Cons.prems(1) have cont: "flow ?s = Continue" and rest: "Call i k \<in> set (trace ?r)"
      by (auto simp add: walk_Cons Let_def split: flow.splits)
    from rest have "Suc (Suc t) \<le> i"
      by (rule walk_call_ge)
    moreover have "returned ?r = None \<and> raised ?r = None \<and>
        final_error ?r = Some (StatusError s p) \<and>
        calls (trace ?r) = [Suc (Suc t)..<Suc i]"
      using rest Cons.prems(2-3) by (rule Cons.IH)
    moreover have "calls (events ?s) = [Suc t]"
      using cont by (auto simp add: loop_body_calls dest: loop_body_continue)
    ultimately show ?thesis
      using cont by (simp add: walk_Cons Let_def calls_append upt_conv_Cons)
  qed
qed

lemma walk_budget:
  "int t + int (length (calls (trace (walk cfg w rcp nk (enumerate (Suc t) keys) t l db))))
     \<le> max (int t) (MAX_TOTAL_RETRIES_PER_PROMPT cfg)"
proof (induction keys arbitrary: t l db)
  case Nil
  then show ?case by simp
next
  case (Cons key keys)
  let ?s = "loop_body cfg w rcp nk (Suc t) key t l db"
  show ?case
  proof (cases "MAX_TOTAL_RETRIES_PER_PROMPT cfg \<le> int t")
    case True
    then show ?thesis by (simp add: walk_Cons loop_body_budget)
  next
    case False
    then have one: "calls (events ?s) = [Suc t]"
      by (simp add: loop_body_calls)
    show ?thesis
    proof (cases "flow ?s")
      case Continue
      then show ?thesis
        using Cons.IH [of "Suc t" "err ?s" "table ?s"] one False
        by (simp add: walk_Cons Let_def calls_append)
    qed (use one False in \<open>simp_all add: walk_Cons Let_def\<close>)
  qed
qed

subsection \<open>Keywords and the handler\<close>

lemma keyword_subsumed: "sublist ''ratelimitexceeded'' x \<Longrightarrow> sublist ''ratelimit'' x"
proof -
  have "prefix ''ratelimit'' ''ratelimitexceeded''" by simp
  then have "sublist ''ratelimit'' ''ratelimitexceeded''" by (rule prefix_imp_sublist)
  then show "sublist ''ratelimitexceeded'' x \<Longrightarrow> sublist ''ratelimit'' x"
    by (rule sublist_order.order_trans)
qed

lemma is_rate_limit_iff: "is_rate_limit s text \<longleftrightarrow> s = 429 \<or> spec_keyword text"
  by (auto simp add: is_rate_limit_def spec_keyword_def Let_def dest: keyword_subsumed)

lemma generate_nonempty:
  "GEMINI_KEYS cfg \<noteq> [] \<Longrightarrow>
   generate cfg w req db =
     (let r = walk cfg w (py_or (email_to req) (DEFAULT_WARNING_TO cfg)) (get_notified_keys db)
                (enumerate (Suc 0) (GEMINI_KEYS cfg)) 0 None db
      in \<lparr>result = (case raised r of
                      Some e \<Rightarrow> Unhandled e
                    | None \<Rightarrow>
                        (case returned r of
                           Some (idx, raw) \<Rightarrow>
                             Ok \<lparr>success = True, key_used_index = Some idx,
                                 raw_response = raw, error = None\<rparr>
                         | None \<Rightarrow> HTTPException 502 (FailedWithAnyKey (final_error r)))),
          effects = trace r, ledger_end = ledger_after r\<rparr>)"
  by (simp add: generate_def Let_def split: option.splits)

lemma generate_empty:
  "GEMINI_KEYS cfg = [] \<Longrightarrow>
   generate cfg w req db =
     \<lparr>result = HTTPException 500 NoKeysConfigured, effects = [], ledger_end = db\<rparr>"
  by (simp add: generate_def)

subsection \<open>The delay before the next call\<close>

lemma loop_body_events_hd:
  "\<not> MAX_TOTAL_RETRIES_PER_PROMPT cfg \<le> int t \<Longrightarrow>
   \<exists>es. events (loop_body cfg w rcp nk idx key t l db) = Call idx key # es"
  by (auto simp add: loop_body_def Let_def
      split: call_result.splits prod.splits sum.splits option.splits)

lemma loop_body_backoff:
  "flow (loop_body cfg w rcp nk idx key t l db) = Continue \<Longrightarrow>
   classify (upstream w (Suc t) key) \<in> {RateLimited, ServerError, TransportError} \<Longrightarrow>
   \<exists>es. events (loop_body cfg w rcp nk idx key t l db) = es @ [Sleep (backoff cfg (Suc t))]"
  by (cases "upstream w (Suc t) key")
     (auto simp add: loop_body_def Let_def split: prod.splits if_splits sum.splits option.splits)

lemma walk_first_call:
  assumes mem: "Call (Suc t) k \<in> set (trace (walk cfg w rcp nk (enumerate (Suc t) keys) t l db))"
  shows "\<exists>post. trace (walk cfg w rcp nk (enumerate (Suc t) keys) t l db) = Call (Suc t) k # post"
proof (cases keys)
  case Nil
  with mem show ?thesis by simp
next
  case (Cons key rest)
  let ?s = "loop_body cfg w rcp nk (Suc t) key t l db"
  let ?r = "walk cfg w rcp nk (enumerate (Suc (Suc t)) rest) (Suc t) (err ?s) (table ?s)"
  have "Call (Suc t) k \<notin> set (trace ?r)"
    using walk_call_ge [of "Suc t" k cfg w rcp nk "Suc t" rest "err ?s" "table ?s"] by auto
  with mem Cons have "Call (Suc t) k \<in> set (events ?s)"
    by (auto simp add: walk_Cons Let_def split: flow.splits)
  then have "k = key" and "\<not> MAX_TOTAL_RETRIES_PER_PROMPT cfg \<le> int t"
    by (simp_all add: loop_body_call_mem)
  then obtain es where "events ?s = Call (Suc t) k # es"
    using loop_body_events_hd [of cfg t w rcp nk "Suc t" key l db] by auto
  then show ?thesis
    using Cons by (auto simp add: walk_Cons Let_def split: flow.splits)
qed

lemma walk_backoff:
  "Call (Suc m) k \<in> set (trace (walk cfg w rcp nk (enumerate (Suc t) keys) t l db)) \<Longrightarrow>
   Call m k' \<in> set (trace (walk cfg w rcp nk (enumerate (Suc t) keys) t l db)) \<Longrightarrow>
   classify (upstream w m k') \<in> {RateLimited, ServerError, TransportError} \<Longrightarrow>
   \<exists>pre post. trace (walk cfg w rcp nk (enumerate (Suc t) keys) t l db) =
     pre @ [Sleep (backoff cfg m), Call (Suc m) k] @ post"
proof (induction keys arbitrary: t l db)
  case Nil
  then show ?case by simp
next
  case (Cons key keys)
  let ?s = "loop_body cfg w rcp nk (Suc t) key t l db"
  let ?r = "walk cfg w rcp nk (enumerate (Suc (Suc t)) keys) (Suc t) (err ?s) (table ?s)"
  from Cons.prems(2) have ge: "Suc t \<le> m"
    by (rule walk_call_ge)
  then have "Call (Suc m) k \<notin> set (events ?s)"
    by (simp add: loop_body_call_mem)
  with Cons.prems(1) have cont: "flow ?s = Continue" and next_call: "Call (Suc m) k \<in> set (trace ?r)"
    by (auto simp add: walk_Cons Let_def split: flow.splits)
  from cont have tr: "trace (walk cfg w rcp nk (enumerate (Suc t) (key # keys)) t l db) =
      events ?s @ trace ?r"
    by (simp add: walk_Cons Let_def)
  show ?case
  proof (cases "m = Suc t")
    case True
    have "Call m k' \<notin> set (trace ?r)"
      using walk_call_ge [of m k' cfg w rcp nk "Suc t" keys "err ?s" "table ?s"] True by auto
    with Cons.prems(2) tr have "Call m k' \<in> set (events ?s)"
      by auto
    then have "k' = key" and ok: "\<not> MAX_TOTAL_RETRIES_PER_PROMPT cfg \<le> int t"
      by (simp_all add: loop_body_call_mem)
    with Cons.prems(3) True cont obtain es where es: "events ?s = es @ [Sleep (backoff cfg m)]"
      using loop_body_backoff [of cfg w rcp nk "Suc t" key t l db] by auto
    from next_call True obtain post where "trace ?r = Call (Suc m) k # post"
      using walk_first_call [of "Suc t" k cfg w rcp nk keys "err ?s" "table ?s"] by auto
    with es tr show ?thesis
      by auto
  next
    case False
    with ge have "Call m k' \<notin> set (events ?s)"
      by (simp add: loop_body_call_mem)
    with Cons.prems(2) tr have "Call m k' \<in> set (trace ?r)"
      by auto
    with next_call obtain pre post where
      "trace ?r = pre @ [Sleep (backoff cfg m), Call (Suc m) k] @ post"
      using Cons.IH [of "Suc t" "err ?s" "table ?s"] Cons.prems(3) by blast
    with tr have "trace (walk cfg w rcp nk (enumerate (Suc t) (key # keys)) t l db) =
      (events ?s @ pre) @ [Sleep (backoff cfg m), Call (Suc m) k] @ post"
      by simp
    then show ?thesis
      by blast
  qed
qed

subsection \<open>Warnings and the table\<close>

lemma alerts_zero_iff:
  "alerts j tr = 0 \<longleftrightarrow>
     (\<forall>b. SendWarningEmail j b \<notin> set tr) \<and> SendWarningEmailRaised j \<notin> set tr"
  by (induction j tr rule: alerts.induct) auto

lemma delivered_zero_iff: "delivered j tr = 0 \<longleftrightarrow> SendWarningEmail j True \<notin> set tr"
  by (induction j tr rule: delivered.induct) auto

lemma delivered_le_alerts: "delivered j tr \<le> alerts j tr"
  by (induction j tr rule: alerts.induct) auto

lemma notify_watched_alerts:
  "alerts j (fst (snd (notify_watched cfg w rcp nk idx db))) =
     (if j = idx \<and> idx \<in> WATCH_KEYS_INDICES cfg \<and> idx \<notin> nk then 1 else 0)"
  by (simp add: notify_watched_def send_warning_email_def alerts_append
      split: prod.splits sum.splits)

lemma notify_watched_table:
  "snd (snd (notify_watched cfg w rcp nk idx db)) j =
     (if SendWarningEmail j True \<in> set (fst (snd (notify_watched cfg w rcp nk idx db)))
      then Some (utcnow w j) else db j)"
  by (simp add: notify_watched_def send_warning_email_def mark_key_notified_def
      split: prod.splits sum.splits)

lemma notify_watched_mem:
  "SendWarningEmail j b \<in> set (fst (snd (notify_watched cfg w rcp nk idx db))) \<Longrightarrow>
     j = idx \<and> idx \<in> WATCH_KEYS_INDICES cfg \<and> idx \<notin> nk \<and> \<not> message_raises cfg rcp"
  by (auto simp add: notify_watched_def send_warning_email_def message_raises_def
      split: prod.splits if_splits sum.splits)

lemma loop_body_alerts:
  "alerts j (events (loop_body cfg w rcp nk idx key t l db)) =
     (if \<not> MAX_TOTAL_RETRIES_PER_PROMPT cfg \<le> int t \<and> classify (upstream w (Suc t) key) = RateLimited
         \<and> j = idx \<and> idx \<in> WATCH_KEYS_INDICES cfg \<and> idx \<notin> nk then 1 else 0)"
  using notify_watched_alerts [of j cfg w rcp nk idx db]
  by (cases "upstream w (Suc t) key")
     (auto simp add: loop_body_def Let_def alerts_append
        split: prod.splits sum.splits option.splits)

lemma loop_body_table:
  "table (loop_body cfg w rcp nk idx key t l db) j =
     (if SendWarningEmail j True \<in> set (events (loop_body cfg w rcp nk idx key t l db))
      then Some (utcnow w j) else db j)"
  using notify_watched_table [of cfg w rcp nk idx db j]
  by (cases "upstream w (Suc t) key")
     (auto simp add: loop_body_def Let_def split: prod.splits sum.splits option.splits)

lemma loop_body_alert_mem:
  "SendWarningEmail j b \<in> set (events (loop_body cfg w rcp nk idx key t l db)) \<Longrightarrow>
     j = idx \<and> idx \<in> WATCH_KEYS_INDICES cfg \<and> idx \<notin> nk \<and> \<not> message_raises cfg rcp"
  using notify_watched_mem [of j b cfg w rcp nk idx db]
  by (cases "upstream w (Suc t) key")
     (auto simp add: loop_body_def Let_def
        split: prod.splits if_splits sum.splits option.splits)

lemma walk_alert_mem:
  "SendWarningEmail j b \<in> set (trace (walk cfg w rcp nk (enumerate (Suc t) keys) t l db)) \<Longrightarrow>
     Suc t \<le> j \<and> j \<in> WATCH_KEYS_INDICES cfg \<and> j \<notin> nk \<and> \<not> message_raises cfg rcp"
proof (induction keys arbitrary: t l db)
  case Nil
  then show ?case by simp
next
  case (Cons key keys)
  let ?s = "loop_body cfg w rcp nk (Suc t) key t l db"
  let ?r = "walk cfg w rcp nk (enumerate (Suc (Suc t)) keys) (Suc t) (err ?s) (table ?s)"
  from Cons.prems have "SendWarningEmail j b \<in> set (events ?s) \<or> SendWarningEmail j b \<in> set (trace ?r)"
    by (auto simp add: walk_Cons Let_def split: flow.splits)
  then show ?case
    using Cons.IH [of "Suc t" "err ?s" "table ?s"] loop_body_alert_mem [of j b cfg w rcp nk "Suc t" key t l db]
    by auto
qed

lemma walk_alerts_zero:
  "j < Suc t \<or> j \<notin> WATCH_KEYS_INDICES cfg \<or> j \<in> nk \<Longrightarrow>
   alerts j (trace (walk cfg w rcp nk (enumerate (Suc t) keys) t l db)) = 0"
proof (induction keys arbitrary: t l db)
  case Nil
  then show ?case by simp
next
  case (Cons key keys)
  let ?s = "loop_body cfg w rcp nk (Suc t) key t l db"
  let ?r = "walk cfg w rcp nk (enumerate (Suc (Suc t)) keys) (Suc t) (err ?s) (table ?s)"
  from Cons.prems have "alerts j (events ?s) = 0"
    by (auto simp add: loop_body_alerts)
  moreover from Cons.prems have "alerts j (trace ?r) = 0"
    by (intro Cons.IH) auto
  ultimately show ?case
    by (cases "flow ?s") (simp_all add: walk_Cons Let_def alerts_append)
qed

lemma walk_alerts_once:
  "Call i k \<in> set (trace (walk cfg w rcp nk (enumerate (Suc t) keys) t l db)) \<Longrightarrow>
   classify (upstream w i k) = RateLimited \<Longrightarrow> i \<in> WATCH_KEYS_INDICES cfg \<Longrightarrow> i \<notin> nk \<Longrightarrow>
   alerts i (trace (walk cfg w rcp nk (enumerate (Suc t) keys) t l db)) = 1"
proof (induction keys arbitrary: t l db)
  case Nil
  then show ?case by simp
next
  case (Cons key keys)
  let ?s = "loop_body cfg w rcp nk (Suc t) key t l db"
  let ?r = "walk cfg w rcp nk (enumerate (Suc (Suc t)) keys) (Suc t) (err ?s) (table ?s)"
  show ?case
  proof (cases "Call i k \<in> set (events ?s)")
    case True
    then have here: "i = Suc t" "k = key" "\<not> MAX_TOTAL_RETRIES_PER_PROMPT cfg \<le> int t"
      by (simp_all add: loop_body_call_mem)
    with Cons.prems have one: "alerts i (events ?s) = 1"
      by (simp add: loop_body_alerts)
    have "alerts i (trace ?r) = 0"
      using here(1) by (intro walk_alerts_zero) simp
    with one show ?thesis
      by (auto simp add: walk_Cons Let_def alerts_append split: flow.splits)
  next
    case False
    with Cons.prems(1) have cont: "flow ?s = Continue" and rest: "Call i k \<in> set (trace ?r)"
      by (auto simp add: walk_Cons Let_def split: flow.splits)
    from rest have "Suc (Suc t) \<le> i"
      by (rule walk_call_ge)
    then have "alerts i (events ?s) = 0"
      by (simp add: loop_body_alerts)
    moreover have "alerts i (trace ?r) = 1"
      using rest Cons.prems(2-4) by (rule Cons.IH)
    ultimately show ?thesis
      using cont by (simp add: walk_Cons Let_def alerts_append)
  qed
qed

lemma walk_alerts_le:
  "alerts j (trace (walk cfg w rcp nk (enumerate (Suc t) keys) t l db)) \<le> 1"
proof (induction keys arbitrary: t l db)
  case Nil
  then show ?case by simp
next
  case (Cons key keys)
  let ?s = "loop_body cfg w rcp nk (Suc t) key t l db"
  let ?r = "walk cfg w rcp nk (enumerate (Suc (Suc t)) keys) (Suc t) (err ?s) (table ?s)"
  have "alerts j (events ?s) \<le> 1"
    by (simp add: loop_body_alerts)
  moreover have "alerts j (events ?s) = 1 \<Longrightarrow> alerts j (trace ?r) = 0"
    by (intro walk_alerts_zero) (auto simp add: loop_body_alerts split: if_splits)
  moreover have "alerts j (trace ?r) \<le> 1"
    by (rule Cons.IH)
  ultimately show ?case
    by (cases "alerts j (events ?s) = 1")
       (auto simp add: walk_Cons Let_def alerts_append split: flow.splits)
qed

lemma walk_table:
  "ledger_after (walk cfg w rcp nk eks t l db) j =
     (if SendWarningEmail j True \<in> set (trace (walk cfg w rcp nk eks t l db))
      then Some (utcnow w j) else db j)"
proof (induction eks arbitrary: t l db)
  case Nil
  then show ?case by simp
next
  case (Cons ek eks)
  obtain idx key where ek: "ek = (idx, key)"
    by (cases ek)
  let ?s = "loop_body cfg w rcp nk idx key t l db"
  show ?case
    using Cons.IH [of "attempts ?s" "err ?s" "table ?s"] loop_body_table [of cfg w rcp nk idx key t l db j]
    by (auto simp add: ek walk.simps Let_def split: flow.splits)
qed

subsection \<open>The examples, evaluated\<close>

lemma hdr_user: "\<not> multi_line ''rotator''"
  by code_simp

lemma hdr_ops: "\<not> multi_line ''ops@example.org''"
  by code_simp

lemma hdr_linefeed: "multi_line [CHR ''a'', CHR 0x0A, CHR ''b'']"
  by code_simp

lemma not_kw1: "\<not> spec_keyword ''Service Unavailable''"
  by code_simp

lemma pool3_effects:
  "effects (generate pool3_cfg pool3_world plain_request Map.empty) =
     [Call 1 ''k1'', Sleep 1, Call 2 ''k2'', Sleep (3 / 2), Call 3 ''k3'']"
  using not_kw1
  by (simp add: generate_def pool3_cfg_def pool3_world_def plain_request_def walk.simps loop_body_def
      is_rate_limit_iff notify_watched_def backoff_def Let_def)

lemma not_kw2: "\<not> spec_keyword ''Not Found''"
  by code_simp

lemma notfound_effects:
  "effects (generate pool3_cfg notfound_world plain_request Map.empty) =
     [Call 1 ''k1'', Sleep 1, Call 2 ''k2'']"
  using not_kw2
  by (simp add: generate_def pool3_cfg_def notfound_world_def plain_request_def walk.simps
      loop_body_def is_rate_limit_iff notify_watched_def backoff_def Let_def)

lemma tight_effects:
  "effects (generate tight_cfg pool3_world plain_request Map.empty) =
     [Call 1 ''k1'', Sleep 1, Call 2 ''k2'', Sleep (3 / 2)]"
  using not_kw1
  by (simp add: generate_def tight_cfg_def pool3_cfg_def pool3_world_def plain_request_def
      walk.simps loop_body_def is_rate_limit_iff notify_watched_def backoff_def Let_def)

lemma slept_before_Cons: "slept_before d n es \<Longrightarrow> slept_before d n (e # es)"
  by (cases "(d, n, e # es)" rule: slept_before.cases) auto

lemma slept_before_append: "slept_before d n es \<Longrightarrow> slept_before d n (pre @ es)"
  by (induction pre) (auto intro: slept_before_Cons)

lemma slept_before_split:
  "slept_before d n (pre @ [Sleep d, Call n k] @ post)"
  by (rule slept_before_append) simp


lemma single429_effects:
  "effects (generate single_cfg always429_world plain_request Map.empty) =
     [Call 1 ''k1'', SmtpSession 1, SendWarningEmail 1 True, MarkKeyNotified 1, Sleep 1]"
  using hdr_user hdr_ops
  by (simp add: generate_def single_cfg_def always429_world_def plain_request_def walk.simps
      loop_body_def is_rate_limit_iff notify_watched_def send_warning_email_def py_or_def
      get_notified_keys_def backoff_def Let_def del: multi_line.simps)



lemma linefeed_raises:
  "message_raises single_cfg (py_or (email_to linefeed_request) (DEFAULT_WARNING_TO single_cfg))"
  using hdr_linefeed
  by (simp add: message_raises_def single_cfg_def linefeed_request_def py_or_def
      del: multi_line.simps)

lemma linefeed_served:
  "generate single_cfg always429_world linefeed_request Map.empty =
     \<lparr>result = Unhandled ValueError, effects = [Call 1 ''k1'', SendWarningEmailRaised 1],
      ledger_end = Map.empty\<rparr>"
  using hdr_linefeed
  by (simp add: generate_def single_cfg_def always429_world_def linefeed_request_def walk.simps
      loop_body_def is_rate_limit_iff notify_watched_def send_warning_email_def py_or_def
      get_notified_keys_def Let_def del: multi_line.simps)

lemma plain_builds:
  "\<not> message_raises single_cfg (py_or (email_to plain_request) (DEFAULT_WARNING_TO single_cfg))"
  using hdr_user hdr_ops
  by (simp add: message_raises_def single_cfg_def plain_request_def py_or_def
      del: multi_line.simps)



lemma notify_watched_raises:
  "fst (notify_watched cfg w rcp nk idx db) =
     (if idx \<in> WATCH_KEYS_INDICES cfg \<and> idx \<notin> nk \<and> message_raises cfg rcp
      then Some ValueError else None)"
  by (simp add: notify_watched_def send_warning_email_def message_raises_def)


subsection \<open>Warnings over a request and over a sequence of requests\<close>

lemma generate_alert_mem:
  "SendWarningEmail j b \<in> set (effects (generate cfg w req db)) \<Longrightarrow>
     j \<in> WATCH_KEYS_INDICES cfg \<and> j \<notin> get_notified_keys db"
  using walk_alert_mem [of j b cfg w "py_or (email_to req) (DEFAULT_WARNING_TO cfg)"
      "get_notified_keys db" 0 "GEMINI_KEYS cfg" None db]
  by (cases "GEMINI_KEYS cfg = []") (simp_all add: generate_empty generate_nonempty Let_def)

lemma generate_alert_built:
  "SendWarningEmail j b \<in> set (effects (generate cfg w req db)) \<Longrightarrow>
     \<not> message_raises cfg (py_or (email_to req) (DEFAULT_WARNING_TO cfg))"
  using walk_alert_mem [of j b cfg w "py_or (email_to req) (DEFAULT_WARNING_TO cfg)"
      "get_notified_keys db" 0 "GEMINI_KEYS cfg" None db]
  by (cases "GEMINI_KEYS cfg = []") (simp_all add: generate_empty generate_nonempty Let_def)

lemma generate_alerts_once:
  "Call i k \<in> set (effects (generate cfg w req db)) \<Longrightarrow>
   classify (upstream w i k) = RateLimited \<Longrightarrow> i \<in> WATCH_KEYS_INDICES cfg \<Longrightarrow>
   i \<notin> get_notified_keys db \<Longrightarrow> alerts i (effects (generate cfg w req db)) = 1"
  using walk_alerts_once [of i k cfg w "py_or (email_to req) (DEFAULT_WARNING_TO cfg)"
      "get_notified_keys db" 0 "GEMINI_KEYS cfg" None db]
  by (cases "GEMINI_KEYS cfg = []") (simp_all add: generate_empty generate_nonempty Let_def)

lemma generate_alerts_le: "alerts j (effects (generate cfg w req db)) \<le> 1"
  using walk_alerts_le [of j cfg w "py_or (email_to req) (DEFAULT_WARNING_TO cfg)"
      "get_notified_keys db" 0 "GEMINI_KEYS cfg" None db]
  by (cases "GEMINI_KEYS cfg = []") (simp_all add: generate_empty generate_nonempty Let_def)

lemma generate_table:
  "ledger_end (generate cfg w req db) j =
     (if SendWarningEmail j True \<in> set (effects (generate cfg w req db))
      then Some (utcnow w j) else db j)"
  using walk_table [of cfg w "py_or (email_to req) (DEFAULT_WARNING_TO cfg)"
      "get_notified_keys db" "enumerate (Suc 0) (GEMINI_KEYS cfg)" 0 None db j]
  by (cases "GEMINI_KEYS cfg = []") (simp_all add: generate_empty generate_nonempty Let_def)

lemma generate_keeps_notified:
  "j \<in> get_notified_keys db \<Longrightarrow> j \<in> get_notified_keys (ledger_end (generate cfg w req db))"
  by (auto simp add: get_notified_keys_def generate_table dom_def)

lemma generate_delivered_notified:
  "SendWarningEmail j True \<in> set (effects (generate cfg w req db)) \<Longrightarrow>
     j \<in> get_notified_keys (ledger_end (generate cfg w req db))"
  by (simp add: get_notified_keys_def generate_table dom_def)

lemma generate_notified_silent:
  "j \<in> get_notified_keys db \<Longrightarrow> alerts j (effects (generate cfg w req db)) = 0"
  using walk_alerts_zero [of j 0 cfg "get_notified_keys db" w
      "py_or (email_to req) (DEFAULT_WARNING_TO cfg)" "GEMINI_KEYS cfg" None db]
  by (cases "GEMINI_KEYS cfg = []") (simp_all add: generate_empty generate_nonempty Let_def)

lemma serve_notified_silent:
  "j \<in> get_notified_keys db \<Longrightarrow> s \<in> set (fst (serve cfg rs db)) \<Longrightarrow> alerts j (effects s) = 0"
proof (induction rs arbitrary: db)
  case Nil
  then show ?case by simp
next
  case (Cons r rs)
  obtain w req where r: "r = (w, req)"
    by (cases r)
  from Cons.prems(1) have keep: "j \<in> get_notified_keys (ledger_end (generate cfg w req db))"
    by (rule generate_keeps_notified)
  from Cons.prems(2) r have "s = generate cfg w req db \<or>
      s \<in> set (fst (serve cfg rs (ledger_end (generate cfg w req db))))"
    by (auto simp add: Let_def split: prod.splits)
  then show ?case
    using Cons.IH [OF keep] generate_notified_silent [OF Cons.prems(1)] by auto
qed

lemma history_serve_Cons:
  "history (fst (serve cfg ((w, req) # rs) db)) =
     effects (generate cfg w req db) @
     history (fst (serve cfg rs (ledger_end (generate cfg w req db))))"
  by (simp add: history_def Let_def split: prod.splits)

lemma serve_delivered_le:
  "delivered j (history (fst (serve cfg rs db))) \<le> (if j \<in> get_notified_keys db then 0 else 1)"
proof (induction rs arbitrary: db)
  case Nil
  then show ?case by (simp add: history_def)
next
  case (Cons r rs)
  obtain w req where r: "r = (w, req)"
    by (cases r)
  let ?g = "generate cfg w req db"
  have le: "delivered j (effects ?g) \<le> 1"
    using delivered_le_alerts [of j "effects ?g"] generate_alerts_le [of j cfg w req db] by simp
  show ?case
  proof (cases "j \<in> get_notified_keys db")
    case True
    then have "delivered j (effects ?g) = 0"
      using generate_notified_silent [OF True, of cfg w req] delivered_le_alerts [of j "effects ?g"]
      by simp
    moreover have "delivered j (history (fst (serve cfg rs (ledger_end ?g)))) = 0"
      using Cons.IH [of "ledger_end ?g"] generate_keeps_notified [OF True, of cfg w req] by simp
    ultimately show ?thesis
      using True by (simp add: r history_serve_Cons delivered_append del: serve.simps)
  next
    case False
    show ?thesis
    proof (cases "SendWarningEmail j True \<in> set (effects ?g)")
      case True
      then have "delivered j (history (fst (serve cfg rs (ledger_end ?g)))) = 0"
        using Cons.IH [of "ledger_end ?g"] generate_delivered_notified [OF True] by simp
      with le False show ?thesis
        by (simp add: r history_serve_Cons delivered_append del: serve.simps)
    next
      case no: False
      then have "delivered j (effects ?g) = 0"
        by (simp add: delivered_zero_iff)
      moreover have "delivered j (history (fst (serve cfg rs (ledger_end ?g)))) \<le> 1"
        using Cons.IH [of "ledger_end ?g"] by (simp split: if_splits)
      ultimately show ?thesis
        using False by (simp add: r history_serve_Cons delivered_append del: serve.simps)
    qed
  qed
qed

lemma alerts_pos: "SendWarningEmail j b \<in> set tr \<Longrightarrow> 1 \<le> alerts j tr"
  using alerts_zero_iff [of j tr] by (cases "alerts j tr") auto

lemma alerts_two:
  "SendWarningEmail j False \<in> set tr \<Longrightarrow> SendWarningEmail j True \<in> set tr \<Longrightarrow> 2 \<le> alerts j tr"
proof (induction j tr rule: alerts.induct)
  case (2 idx i sent es)
  then show ?case
    using alerts_pos [of idx False es] alerts_pos [of idx True es] by (cases sent) auto
qed auto

lemma generate_failed_not_sent:
  assumes "SendWarningEmail j False \<in> set (effects (generate cfg w req db))"
  shows "SendWarningEmail j True \<notin> set (effects (generate cfg w req db))"
  using alerts_two [OF assms] generate_alerts_le [of j cfg w req db] by auto

lemma notify_watched_failed:
  "SendWarningEmail j False \<in> set (fst (snd (notify_watched cfg w rcp nk idx db))) \<Longrightarrow>
   j = idx \<and> fst (notify_watched cfg w rcp nk idx db) = None \<and>
   (\<exists>pre. fst (snd (notify_watched cfg w rcp nk idx db)) = pre @ [SendWarningEmail j False])"
  by (auto simp add: notify_watched_def send_warning_email_def
      split: prod.splits sum.splits if_splits)

lemma loop_body_failed_alert:
  assumes "SendWarningEmail j False \<in> set (events (loop_body cfg w rcp nk idx key t l db))"
  shows "\<exists>pre. events (loop_body cfg w rcp nk idx key t l db) =
           pre @ [SendWarningEmail j False, Sleep (backoff cfg (Suc t))]"
proof (cases "upstream w (Suc t) key")
  case (RequestError e)
  with assms show ?thesis
    by (auto simp add: loop_body_def Let_def split: if_splits)
next
  case (Response s p)
  obtain exn evs db' where nw: "notify_watched cfg w rcp nk idx db = (exn, evs, db')"
    by (cases "notify_watched cfg w rcp nk idx db")
  from assms Response nw have mem: "SendWarningEmail j False \<in> set evs"
    by (auto simp add: loop_body_def Let_def split: if_splits sum.splits option.splits)
  from mem nw have none: "exn = None" and "\<exists>pre. evs = pre @ [SendWarningEmail j False]"
    using notify_watched_failed [of j cfg w rcp nk idx db] by auto
  then obtain pre where pre: "evs = pre @ [SendWarningEmail j False]"
    by blast
  from assms Response nw none have rl: "events (loop_body cfg w rcp nk idx key t l db) =
      Call idx key # evs @ [Sleep (backoff cfg (Suc t))]"
    by (auto simp add: loop_body_def Let_def split: if_splits sum.splits)
  with pre have "events (loop_body cfg w rcp nk idx key t l db) =
      (Call idx key # pre) @ [SendWarningEmail j False, Sleep (backoff cfg (Suc t))]"
    by simp
  then show ?thesis by blast
qed

lemma walk_failed_alert:
  "SendWarningEmail j False \<in> set (trace (walk cfg w rcp nk (enumerate (Suc t) keys) t l db)) \<Longrightarrow>
   \<exists>pre post. trace (walk cfg w rcp nk (enumerate (Suc t) keys) t l db) =
     pre @ [SendWarningEmail j False, Sleep (backoff cfg j)] @ post"
proof (induction keys arbitrary: t l db)
  case Nil
  then show ?case by simp
next
  case (Cons key keys)
  let ?s = "loop_body cfg w rcp nk (Suc t) key t l db"
  let ?r = "walk cfg w rcp nk (enumerate (Suc (Suc t)) keys) (Suc t) (err ?s) (table ?s)"
  show ?case
  proof (cases "SendWarningEmail j False \<in> set (events ?s)")
    case True
    then have j: "j = Suc t"
      using loop_body_alert_mem [of j False cfg w rcp nk "Suc t" key t l db] by simp
    from True obtain pre where pre: "events ?s = pre @ [SendWarningEmail j False, Sleep (backoff cfg (Suc t))]"
      using loop_body_failed_alert by blast
    have "\<exists>post. trace (walk cfg w rcp nk (enumerate (Suc t) (key # keys)) t l db) = events ?s @ post"
      by (cases "flow ?s") (simp_all add: walk_Cons Let_def)
    then obtain post where "trace (walk cfg w rcp nk (enumerate (Suc t) (key # keys)) t l db) =
        pre @ [SendWarningEmail j False, Sleep (backoff cfg j)] @ post"
      using pre j by auto
    then show ?thesis by blast
  next
    case False
    with Cons.prems have cont: "flow ?s = Continue" and rest: "SendWarningEmail j False \<in> set (trace ?r)"
      by (auto simp add: walk_Cons Let_def split: flow.splits)
    from rest obtain pre post where
      "trace ?r = pre @ [SendWarningEmail j False, Sleep (backoff cfg j)] @ post"
      using Cons.IH by blast
    with cont have "trace (walk cfg w rcp nk (enumerate (Suc t) (key # keys)) t l db) =
        (events ?s @ pre) @ [SendWarningEmail j False, Sleep (backoff cfg j)] @ post"
      by (simp add: walk_Cons Let_def)
    then show ?thesis by blast
  qed
qed

lemma loop_body_dispatch_indep:
  assumes "upstream w' = upstream w"
    and "\<not> message_raises cfg rcp'" and "\<not> message_raises cfg rcp"
  shows "flow (loop_body cfg w' rcp' nk' idx key t l db') = flow (loop_body cfg w rcp nk idx key t l db)"
    and "attempts (loop_body cfg w' rcp' nk' idx key t l db') = attempts (loop_body cfg w rcp nk idx key t l db)"
    and "err (loop_body cfg w' rcp' nk' idx key t l db') = err (loop_body cfg w rcp nk idx key t l db)"
    and "dispatch (events (loop_body cfg w' rcp' nk' idx key t l db')) =
         dispatch (events (loop_body cfg w rcp nk idx key t l db))"
  using assms notify_watched_dispatch [of cfg w rcp nk idx db]
    notify_watched_dispatch [of cfg w' rcp' nk' idx db']
    notify_watched_raises [of cfg w rcp nk idx db]
    notify_watched_raises [of cfg w' rcp' nk' idx db']
  by (auto simp add: loop_body_def Let_def dispatch_append
      split: call_result.splits prod.splits sum.splits)

lemma walk_dispatch_indep:
  assumes "upstream w' = upstream w"
    and "\<not> message_raises cfg rcp'" and "\<not> message_raises cfg rcp"
  shows "returned (walk cfg w' rcp' nk' eks t l db') = returned (walk cfg w rcp nk eks t l db)
     \<and> raised (walk cfg w' rcp' nk' eks t l db') = raised (walk cfg w rcp nk eks t l db)
     \<and> final_error (walk cfg w' rcp' nk' eks t l db') = final_error (walk cfg w rcp nk eks t l db)
     \<and> dispatch (trace (walk cfg w' rcp' nk' eks t l db')) =
         dispatch (trace (walk cfg w rcp nk eks t l db))"
proof (induction eks arbitrary: t l db db')
  case Nil
  then show ?case by simp
next
  case (Cons ek eks)
  obtain idx key where ek: "ek = (idx, key)"
    by (cases ek)
  let ?s = "loop_body cfg w rcp nk idx key t l db"
  let ?s' = "loop_body cfg w' rcp' nk' idx key t l db'"
  note same = loop_body_dispatch_indep [OF assms, of nk' idx key t l db' nk db]
  show ?case
    using Cons.IH [of "attempts ?s" "err ?s" "table ?s'" "table ?s"] same
    by (cases "flow ?s") (simp_all add: ek walk.simps Let_def dispatch_append)
qed

lemma generate_dispatch_indep:
  assumes "upstream w' = upstream w"
    and "\<not> message_raises cfg (py_or (email_to req') (DEFAULT_WARNING_TO cfg))"
    and "\<not> message_raises cfg (py_or (email_to req) (DEFAULT_WARNING_TO cfg))"
  shows "result (generate cfg w' req' db') = result (generate cfg w req db)
     \<and> dispatch (effects (generate cfg w' req' db')) = dispatch (effects (generate cfg w req db))"
  using walk_dispatch_indep [OF assms, of
      "get_notified_keys db'" "enumerate (Suc 0) (GEMINI_KEYS cfg)" 0 None db'
      "get_notified_keys db" db]
  by (cases "GEMINI_KEYS cfg = []")
     (auto simp add: generate_empty generate_nonempty Let_def split: option.splits)

lemma generate_failed_alert:
  assumes "SendWarningEmail j False \<in> set (effects (generate cfg w req db))"
  shows "\<exists>pre post. effects (generate cfg w req db) =
     pre @ [SendWarningEmail j False, Sleep (backoff cfg j)] @ post"
proof -
  from assms have ne: "GEMINI_KEYS cfg \<noteq> []"
    by (auto simp add: generate_empty)
  with assms show ?thesis
    using walk_failed_alert [of j cfg w "py_or (email_to req) (DEFAULT_WARNING_TO cfg)"
      "get_notified_keys db" 0 "GEMINI_KEYS cfg" None db]
    by (simp add: generate_nonempty Let_def)
qed

lemma smtp_down_effects:
  "effects (generate single_cfg smtp_down_world plain_request Map.empty) =
     [Call 1 ''k1'', SmtpSession 1, SendWarningEmail 1 False, Sleep 1]"
  using hdr_user hdr_ops
  by (simp add: generate_def single_cfg_def smtp_down_world_def always429_world_def
      plain_request_def walk.simps
      loop_body_def is_rate_limit_iff notify_watched_def send_warning_email_def py_or_def
      get_notified_keys_def backoff_def Let_def del: multi_line.simps)

lemma no_delivery_append: "no_delivery (xs @ ys) \<longleftrightarrow> no_delivery xs \<and> no_delivery ys"
  by (induction xs rule: no_delivery.induct) simp_all

lemma no_delivery_not_sent: "no_delivery tr \<Longrightarrow> SendWarningEmail i True \<notin> set tr"
  by (induction tr rule: no_delivery.induct) auto

lemma no_delivery_not_raised: "no_delivery tr \<Longrightarrow> SendWarningEmailRaised i \<notin> set tr"
  by (induction tr rule: no_delivery.induct) auto

lemma send_warning_email_cannot:
  "\<not> (truthy (SMTP_HOST cfg) \<and> truthy (SMTP_USER cfg) \<and> truthy (SMTP_PASS cfg) \<and> truthy rcp) \<Longrightarrow>
   send_warning_email cfg w idx rcp = (Inr False, [])"
  by (simp add: send_warning_email_def)

lemma notify_watched_cannot:
  "\<not> (truthy (SMTP_HOST cfg) \<and> truthy (SMTP_USER cfg) \<and> truthy (SMTP_PASS cfg) \<and> truthy rcp) \<Longrightarrow>
   fst (notify_watched cfg w rcp nk idx db) = None \<and>
   no_delivery (fst (snd (notify_watched cfg w rcp nk idx db))) \<and>
   snd (snd (notify_watched cfg w rcp nk idx db)) = db"
  by (simp add: notify_watched_def send_warning_email_cannot)

lemma loop_body_cannot:
  assumes "\<not> (truthy (SMTP_HOST cfg) \<and> truthy (SMTP_USER cfg) \<and> truthy (SMTP_PASS cfg) \<and> truthy rcp)"
  shows "no_delivery (events (loop_body cfg w rcp nk idx key t l db)) \<and>
         table (loop_body cfg w rcp nk idx key t l db) = db"
  using notify_watched_cannot [OF assms, of w nk idx db]
  by (auto simp add: loop_body_def Let_def no_delivery_append
      split: call_result.splits prod.splits sum.splits)

lemma walk_cannot:
  assumes "\<not> (truthy (SMTP_HOST cfg) \<and> truthy (SMTP_USER cfg) \<and> truthy (SMTP_PASS cfg) \<and> truthy rcp)"
  shows "no_delivery (trace (walk cfg w rcp nk eks t l db)) \<and>
         ledger_after (walk cfg w rcp nk eks t l db) = db"
proof (induction eks arbitrary: t l)
  case Nil
  then show ?case by simp
next
  case (Cons ek eks)
  obtain idx key where ek: "ek = (idx, key)"
    by (cases ek)
  let ?s = "loop_body cfg w rcp nk idx key t l db"
  show ?case
    using Cons.IH [of "attempts ?s" "err ?s"] loop_body_cannot [OF assms, of w nk idx key t l db]
    by (cases "flow ?s") (simp_all add: ek walk.simps Let_def no_delivery_append)
qed

lemma generate_cannot:
  assumes "\<not> can_send cfg req"
  shows "no_delivery (effects (generate cfg w req db)) \<and> ledger_end (generate cfg w req db) = db"
proof (cases "GEMINI_KEYS cfg = []")
  case True
  then show ?thesis by (simp add: generate_empty)
next
  case False
  from assms have "\<not> (truthy (SMTP_HOST cfg) \<and> truthy (SMTP_USER cfg) \<and> truthy (SMTP_PASS cfg)
      \<and> truthy (py_or (email_to req) (DEFAULT_WARNING_TO cfg)))"
    by (simp add: can_send_def)
  from walk_cannot [OF this, of w "get_notified_keys db" "enumerate (Suc 0) (GEMINI_KEYS cfg)" 0 None db]
  show ?thesis
    using False by (simp add: generate_nonempty Let_def)
qed

lemma serve_cannot:
  "\<forall>(w, req) \<in> set rs. \<not> can_send cfg req \<Longrightarrow>
   serve cfg rs db = (map (\<lambda>(w, req). generate cfg w req db) rs, db)"
proof (induction rs)
  case Nil
  then show ?case by simp
next
  case (Cons r rs)
  obtain w req where r: "r = (w, req)"
    by (cases r)
  with Cons.prems have "\<not> can_send cfg req"
    by simp
  then have "ledger_end (generate cfg w req db) = db"
    using generate_cannot by blast
  with Cons r show ?case
    by (simp add: Let_def)
qed

lemma no_smtp_effects:
  "effects (generate no_smtp_cfg always429_world plain_request Map.empty) =
     [Call 1 ''k1'', SendWarningEmail 1 False, Sleep 1]"
  by (simp add: generate_def no_smtp_cfg_def single_cfg_def always429_world_def
      plain_request_def walk.simps
      loop_body_def is_rate_limit_iff notify_watched_def send_warning_email_def py_or_def
      get_notified_keys_def backoff_def Let_def del: multi_line.simps)

section \<open>The claims\<close>

subsection \<open>C1: the precedence of the classification\<close>




subsection \<open>C2: one warning per watched key\<close>

text \<open>
  Claim C2. When a request meets a rate limit on a watched key index that the table
  does not hold yet, the warning e-mail is attempted exactly once in that request. If
  it is sent, the table holds the index afterwards, and no request served later, one
  after another, attempts the e-mail for this index again. Over any sequence of
  requests, from any table, the warning for an index is sent at most once. (Requests
  are served one after another; the table is changed by the handler only.)
\<close>

theorem watched_key_alerted_once:
  assumes "idx \<in> WATCH_KEYS_INDICES cfg" and "idx \<notin> get_notified_keys db"
    and "Call idx k \<in> set (effects (generate cfg w req db))"
    and "classify (upstream w idx k) = RateLimited"
  shows "alerts idx (effects (generate cfg w req db)) = 1
     \<and> (SendWarningEmail idx True \<in> set (effects (generate cfg w req db)) \<longrightarrow>
          idx \<in> get_notified_keys (ledger_end (generate cfg w req db))
          \<and> (\<forall>rs. \<forall>s \<in> set (fst (serve cfg rs (ledger_end (generate cfg w req db)))).
                alerts idx (effects s) = 0))
     \<and> (\<forall>rs db0. delivered idx (history (fst (serve cfg rs db0))) \<le> 1)"
proof (intro conjI impI allI ballI)
  show "alerts idx (effects (generate cfg w req db)) = 1"
    using assms(3,4,1,2) by (rule generate_alerts_once)
next
  assume "SendWarningEmail idx True \<in> set (effects (generate cfg w req db))"
  then show "idx \<in> get_notified_keys (ledger_end (generate cfg w req db))"
    by (rule generate_delivered_notified)
next
  fix rs s
  assume "SendWarningEmail idx True \<in> set (effects (generate cfg w req db))"
    and "s \<in> set (fst (serve cfg rs (ledger_end (generate cfg w req db))))"
  then show "alerts idx (effects s) = 0"
    using serve_notified_silent generate_delivered_notified by blast
next
  fix rs db0
  show "delivered idx (history (fst (serve cfg rs db0))) \<le> 1"
    using serve_delivered_le [of idx cfg rs db0] by (simp split: if_splits)
qed

theorem watched_key_alerted_once_witness:
  "1 \<in> WATCH_KEYS_INDICES single_cfg \<and> 1 \<notin> get_notified_keys Map.empty
   \<and> Call 1 ''k1'' \<in> set (effects (generate single_cfg always429_world plain_request Map.empty))
   \<and> classify (upstream always429_world 1 ''k1'') = RateLimited
   \<and> alerts 1 (effects (generate single_cfg always429_world plain_request Map.empty)) = 1
   \<and> SendWarningEmail 1 True \<in> set (effects (generate single_cfg always429_world plain_request Map.empty))
   \<and> 1 \<in> get_notified_keys (ledger_end (generate single_cfg always429_world plain_request Map.empty))
   \<and> alerts 1 (effects (generate single_cfg always429_world plain_request
        (ledger_end (generate single_cfg always429_world plain_request Map.empty)))) = 0
   \<and> delivered 1 (history (fst (serve single_cfg
        [(always429_world, plain_request), (always429_world, plain_request)] Map.empty))) \<le> 1"
proof -
  let ?g = "generate single_cfg always429_world plain_request Map.empty"
  have h1: "1 \<in> WATCH_KEYS_INDICES single_cfg"
    by (simp add: single_cfg_def)
  have h2: "1 \<notin> get_notified_keys Map.empty"
    by (simp add: get_notified_keys_def)
  have h3: "Call 1 ''k1'' \<in> set (effects ?g)"
    by (simp add: single429_effects)
  have h4: "classify (upstream always429_world 1 ''k1'') = RateLimited"
    by (simp add: always429_world_def is_rate_limit_def)
  have h5: "SendWarningEmail 1 True \<in> set (effects ?g)"
    by (simp add: single429_effects)
  note main = watched_key_alerted_once [OF h1 h2 h3 h4]
  from main h5 have a: "alerts 1 (effects ?g) = 1" and b: "1 \<in> get_notified_keys (ledger_end ?g)"
    and c: "\<forall>rs. \<forall>s \<in> set (fst (serve single_cfg rs (ledger_end ?g))). alerts 1 (effects s) = 0"
    and d: "\<forall>rs db0. delivered 1 (history (fst (serve single_cfg rs db0))) \<le> 1"
    by blast+
  from c have "\<forall>s \<in> set (fst (serve single_cfg [(always429_world, plain_request)] (ledger_end ?g))).
      alerts 1 (effects s) = 0"
    by (rule spec)
  then have e: "alerts 1 (effects (generate single_cfg always429_world plain_request (ledger_end ?g))) = 0"
    by (simp add: Let_def)
  from d have f: "delivered 1 (history (fst (serve single_cfg
        [(always429_world, plain_request), (always429_world, plain_request)] Map.empty))) \<le> 1"
    by blast
  from h1 h2 h3 h4 h5 a b e f show ?thesis
    by (intro conjI)
qed

subsection \<open>C3: a pool of one key\<close>




subsection \<open>C4: the delay before an attempt\<close>

text \<open>
  Claim C4, as amended. For every attempt number \<open>n \<ge> 2\<close>: if the attempt before it
  (number \<open>n - 1\<close>) ended in a rate limit, a server error or a transport error, the
  handler sleeps \<open>base * 1.5 ^ (n - 2)\<close> seconds directly before attempt \<open>n\<close>, that is
  \<open>base * 1.5 ^ (a - 1)\<close> for the number \<open>a = n - 1\<close> of attempts made so far; the
  delay does not depend on the key. (The claim has the exponent \<open>n - 1\<close>.) Delays are
  exact reals here, not floating-point numbers.
\<close>

theorem backoff_before_attempt:
  assumes "2 \<le> n"
    and "Call n k \<in> set (effects (generate cfg w req db))"
    and "Call (n - 1) k' \<in> set (effects (generate cfg w req db))"
    and "classify (upstream w (n - 1) k') \<in> {RateLimited, ServerError, TransportError}"
  shows "slept_before (BASE_BACKOFF_SECONDS cfg * (3 / 2) ^ (n - 2)) n
           (effects (generate cfg w req db))"
proof -
  from assms(2) have ne: "GEMINI_KEYS cfg \<noteq> []"
    by (auto simp add: generate_empty)
  let ?r = "walk cfg w (py_or (email_to req) (DEFAULT_WARNING_TO cfg)) (get_notified_keys db)
                (enumerate (Suc 0) (GEMINI_KEYS cfg)) 0 None db"
  from assms(1) obtain m where n: "n = Suc m" and m: "1 \<le> m"
    by (cases n) auto
  from assms(2,3) ne n have "Call (Suc m) k \<in> set (trace ?r)" and "Call m k' \<in> set (trace ?r)"
    by (simp_all add: generate_nonempty Let_def)
  moreover from assms(4) n have "classify (upstream w m k') \<in> {RateLimited, ServerError, TransportError}"
    by simp
  ultimately obtain pre post where
    "trace ?r = pre @ [Sleep (backoff cfg m), Call (Suc m) k] @ post"
    using walk_backoff by blast
  then have "slept_before (backoff cfg m) (Suc m) (trace ?r)"
    by (simp only: slept_before_split)
  moreover have "backoff cfg m = BASE_BACKOFF_SECONDS cfg * (3 / 2) ^ (n - 2)"
    using n by (simp add: backoff_def)
  ultimately show ?thesis
    using ne n by (simp add: generate_nonempty Let_def)
qed

theorem backoff_before_attempt_witness:
  "Call 2 ''k2'' \<in> set (effects (generate pool3_cfg pool3_world plain_request Map.empty))
   \<and> Call (2 - 1) ''k1'' \<in> set (effects (generate pool3_cfg pool3_world plain_request Map.empty))
   \<and> classify (upstream pool3_world (2 - 1) ''k1'') = RateLimited
   \<and> slept_before 1 2 (effects (generate pool3_cfg pool3_world plain_request Map.empty))"
proof -
  have h1: "Call 2 ''k2'' \<in> set (effects (generate pool3_cfg pool3_world plain_request Map.empty))"
    and h2: "Call (2 - 1) ''k1'' \<in> set (effects (generate pool3_cfg pool3_world plain_request Map.empty))"
    by (simp_all add: pool3_effects)
  have h3: "classify (upstream pool3_world (2 - 1) ''k1'') = RateLimited"
    by (simp add: pool3_world_def is_rate_limit_def)
  then have h3': "classify (upstream pool3_world (2 - 1) ''k1'') \<in> {RateLimited, ServerError, TransportError}"
    by simp
  from backoff_before_attempt [OF _ h1 h2 h3'] h1 h2 h3 show ?thesis
    by (simp add: pool3_cfg_def)
qed

text \<open>
  The claim as stated fails: with base delay 1, after a 429 on the first key the
  handler sleeps 1 second before the second attempt, not \<open>1 * 1.5 ^ (2 - 1)\<close>.
\<close>

theorem backoff_before_attempt_counterexample:
  "effects (generate pool3_cfg pool3_world plain_request Map.empty) =
     [Call 1 ''k1'', Sleep 1, Call 2 ''k2'', Sleep (3 / 2), Call 3 ''k3'']
   \<and> classify (upstream pool3_world 1 ''k1'') = RateLimited
   \<and> \<not> slept_before (BASE_BACKOFF_SECONDS pool3_cfg * (3 / 2) ^ (2 - 1)) 2
         (effects (generate pool3_cfg pool3_world plain_request Map.empty))"
  by (simp add: pool3_effects) (simp add: pool3_cfg_def pool3_world_def is_rate_limit_def)

subsection \<open>C5: the budget of attempts\<close>

text \<open>
  Claim C5. The number of upstream calls of a request never exceeds the configured
  budget \<^verbatim>\<open>MAX_TOTAL_RETRIES_PER_PROMPT\<close>, whatever the pool and the answers are. The
  budget is a number of attempts, so it is taken to be at least 0 (with a budget below 0
  the handler makes no call at all, see \<open>walk_budget\<close>).
\<close>

theorem attempts_within_budget:
  assumes "0 \<le> MAX_TOTAL_RETRIES_PER_PROMPT cfg"
  shows "int (length (calls (effects (generate cfg w req db)))) \<le> MAX_TOTAL_RETRIES_PER_PROMPT cfg"
proof (cases "GEMINI_KEYS cfg = []")
  case True
  with assms show ?thesis by (simp add: generate_empty)
next
  case False
  then show ?thesis
    using assms walk_budget [of 0 cfg w "py_or (email_to req) (DEFAULT_WARNING_TO cfg)"
        "get_notified_keys db" "GEMINI_KEYS cfg" None db]
    by (simp add: generate_nonempty Let_def)
qed

theorem attempts_within_budget_witness:
  "0 \<le> MAX_TOTAL_RETRIES_PER_PROMPT tight_cfg
   \<and> length (GEMINI_KEYS tight_cfg) = 3
   \<and> calls (effects (generate tight_cfg pool3_world plain_request Map.empty)) = [1, 2]
   \<and> int (length (calls (effects (generate tight_cfg pool3_world plain_request Map.empty))))
       \<le> MAX_TOTAL_RETRIES_PER_PROMPT tight_cfg"
proof -
  have h: "0 \<le> MAX_TOTAL_RETRIES_PER_PROMPT tight_cfg"
    by (simp add: tight_cfg_def pool3_cfg_def)
  from attempts_within_budget [OF h, of pool3_world plain_request Map.empty] h show ?thesis
    by (simp add: tight_effects) (simp add: tight_cfg_def pool3_cfg_def)
qed

subsection \<open>C6: a failure that is neither rate limit, authentication nor server error ends the walk\<close>

text \<open>
  Claim C6. If the call made with key \<open>i\<close> is answered with a status that is not 2xx, not
  429, not 401 or 403 and not 5xx, and the body holds none of the keywords, the handler
  fails with the 502 error that reports this status, and the upstream calls of the
  request are those with the keys 1 to \<open>i\<close>: key \<open>i + 1\<close> and the later keys are not
  attempted.
\<close>

theorem other_failure_stops_walk:
  assumes "Call i k \<in> set (effects (generate cfg w req db))"
    and "upstream w i k = Response s p"
    and "\<not> (200 \<le> s \<and> s < 300)" and "s \<noteq> 429" and "s \<noteq> 401" and "s \<noteq> 403"
    and "\<not> (500 \<le> s \<and> s < 600)" and "\<not> spec_keyword (serialized p)"
  shows "result (generate cfg w req db) =
           HTTPException 502 (FailedWithAnyKey (Some (StatusError s p)))
         \<and> calls (effects (generate cfg w req db)) = [1..<Suc i]"
proof -
  from assms(1) have ne: "GEMINI_KEYS cfg \<noteq> []"
    by (auto simp add: generate_empty)
  let ?r = "walk cfg w (py_or (email_to req) (DEFAULT_WARNING_TO cfg)) (get_notified_keys db)
                (enumerate (Suc 0) (GEMINI_KEYS cfg)) 0 None db"
  from assms(1) ne have here: "Call i k \<in> set (trace ?r)"
    by (simp add: generate_nonempty Let_def)
  from assms(3-8) have "classify (Response s p) = OtherFailure"
    by (simp add: is_rate_limit_iff)
  with here assms(2) have "returned ?r = None \<and> raised ?r = None \<and>
      final_error ?r = Some (StatusError s p) \<and> calls (trace ?r) = [Suc 0..<Suc i]"
    by (rule walk_other_failure)
  then show ?thesis
    using ne by (simp add: generate_nonempty Let_def)
qed

theorem other_failure_stops_walk_witness:
  "Call 2 ''k2'' \<in> set (effects (generate pool3_cfg notfound_world plain_request Map.empty))
   \<and> upstream notfound_world 2 ''k2'' = Response 404 (JsonOther ''Not Found'')
   \<and> \<not> spec_keyword (serialized (JsonOther ''Not Found''))
   \<and> result (generate pool3_cfg notfound_world plain_request Map.empty) =
       HTTPException 502 (FailedWithAnyKey (Some (StatusError 404 (JsonOther ''Not Found''))))
   \<and> calls (effects (generate pool3_cfg notfound_world plain_request Map.empty)) = [1, 2]"
proof -
  have h1: "Call 2 ''k2'' \<in> set (effects (generate pool3_cfg notfound_world plain_request Map.empty))"
    by (simp add: notfound_effects)
  have h2: "upstream notfound_world 2 ''k2'' = Response 404 (JsonOther ''Not Found'')"
    by (simp add: notfound_world_def)
  have h3: "\<not> spec_keyword (serialized (JsonOther ''Not Found''))"
    using not_kw2 by simp
  from other_failure_stops_walk [OF h1 h2 _ _ _ _ _ h3] h1 h2 h3 show ?thesis
    by (simp add: upt_rec)
qed

subsection \<open>C7: no key configured\<close>

text \<open>
  Claim C7. With an empty key pool the handler fails with the error of status 500 and
  detail "No Gemini API keys configured.", makes no upstream call (it does nothing at
  all) and leaves the table as it is. The failure is distinguishable: with a key in the
  pool the handler never gives this result (its failure is then the 502 error).
\<close>

theorem empty_pool_not_configured:
  "(GEMINI_KEYS cfg = [] \<longrightarrow>
      result (generate cfg w req db) = HTTPException 500 NoKeysConfigured \<and>
      effects (generate cfg w req db) = [] \<and> ledger_end (generate cfg w req db) = db)
   \<and> (GEMINI_KEYS cfg \<noteq> [] \<longrightarrow>
      result (generate cfg w req db) \<noteq> HTTPException 500 NoKeysConfigured)"
  by (simp add: generate_empty generate_nonempty Let_def split: option.splits)

theorem empty_pool_not_configured_witness:
  "GEMINI_KEYS no_keys_cfg = []
   \<and> result (generate no_keys_cfg pool3_world plain_request Map.empty) =
       HTTPException 500 NoKeysConfigured
   \<and> calls (effects (generate no_keys_cfg pool3_world plain_request Map.empty)) = []
   \<and> GEMINI_KEYS pool3_cfg \<noteq> []
   \<and> result (generate pool3_cfg pool3_world plain_request Map.empty) \<noteq>
       HTTPException 500 NoKeysConfigured"
proof -
  have h1: "GEMINI_KEYS no_keys_cfg = []"
    by (simp add: no_keys_cfg_def)
  have h2: "GEMINI_KEYS pool3_cfg \<noteq> []"
    by (simp add: pool3_cfg_def)
  from empty_pool_not_configured [of no_keys_cfg pool3_world plain_request Map.empty]
    empty_pool_not_configured [of pool3_cfg pool3_world plain_request Map.empty] h1 h2
  show ?thesis by simp
qed

subsection \<open>C8: a success ends the walk\<close>




subsection \<open>C9: a failed warning does not change the walk\<close>


text \<open>
  The part of the claim about a warning that returns False holds. If
  \<^verbatim>\<open>send_warning_email\<close> returns False for a key index (also when the SMTP session
  raises), the table is not marked for that index; the failed attempt is directly
  followed by the usual delay \<open>backoff\<close>, and the result of the request, its upstream
  calls and its sleeps are the same as in any world with the same upstream answers,
  whatever the SMTP session, the table and the recipient are, as long as the message for
  the recipient can be built. A later request that meets the rate limit on this index
  attempts the e-mail again.
\<close>

theorem alert_failure_keeps_walk:
  assumes "SendWarningEmail idx False \<in> set (effects (generate cfg w req db))"
  shows "ledger_end (generate cfg w req db) idx = db idx
     \<and> idx \<notin> get_notified_keys (ledger_end (generate cfg w req db))
     \<and> (\<exists>pre post. effects (generate cfg w req db) =
           pre @ [SendWarningEmail idx False, Sleep (backoff cfg idx)] @ post)
     \<and> (\<forall>w' req' db'. upstream w' = upstream w
           \<and> \<not> message_raises cfg (py_or (email_to req') (DEFAULT_WARNING_TO cfg)) \<longrightarrow>
           result (generate cfg w' req' db') = result (generate cfg w req db)
           \<and> dispatch (effects (generate cfg w' req' db')) =
               dispatch (effects (generate cfg w req db)))
     \<and> (\<forall>w2 req2 k2.
           Call idx k2 \<in> set (effects (generate cfg w2 req2 (ledger_end (generate cfg w req db))))
           \<and> classify (upstream w2 idx k2) = RateLimited \<longrightarrow>
           alerts idx (effects (generate cfg w2 req2 (ledger_end (generate cfg w req db)))) = 1)"
proof -
  let ?g = "generate cfg w req db"
  from assms have watch: "idx \<in> WATCH_KEYS_INDICES cfg" and fresh: "idx \<notin> get_notified_keys db"
    using generate_alert_mem by blast+
  from assms have built: "\<not> message_raises cfg (py_or (email_to req) (DEFAULT_WARNING_TO cfg))"
    by (rule generate_alert_built)
  from assms have "SendWarningEmail idx True \<notin> set (effects ?g)"
    by (rule generate_failed_not_sent)
  then have same: "ledger_end ?g idx = db idx"
    by (simp add: generate_table)
  with fresh have still: "idx \<notin> get_notified_keys (ledger_end ?g)"
    by (simp add: get_notified_keys_def dom_def)
  have again: "alerts idx (effects (generate cfg w2 req2 (ledger_end ?g))) = 1"
    if "Call idx k2 \<in> set (effects (generate cfg w2 req2 (ledger_end ?g)))
        \<and> classify (upstream w2 idx k2) = RateLimited" for w2 req2 k2
    using that watch still generate_alerts_once by blast
  have indep: "result (generate cfg w' req' db') = result ?g
      \<and> dispatch (effects (generate cfg w' req' db')) = dispatch (effects ?g)"
    if "upstream w' = upstream w
        \<and> \<not> message_raises cfg (py_or (email_to req') (DEFAULT_WARNING_TO cfg))" for w' req' db'
    using that built generate_dispatch_indep by blast
  from same still generate_failed_alert [OF assms] indep again
  show ?thesis
    by blast
qed

theorem alert_failure_keeps_walk_witness:
  "SendWarningEmail 1 False \<in> set (effects (generate single_cfg smtp_down_world plain_request Map.empty))
   \<and> 1 \<notin> get_notified_keys (ledger_end (generate single_cfg smtp_down_world plain_request Map.empty))
   \<and> upstream always429_world = upstream smtp_down_world
   \<and> \<not> message_raises single_cfg (py_or (email_to plain_request) (DEFAULT_WARNING_TO single_cfg))
   \<and> result (generate single_cfg always429_world plain_request Map.empty) =
       result (generate single_cfg smtp_down_world plain_request Map.empty)
   \<and> dispatch (effects (generate single_cfg always429_world plain_request Map.empty)) =
       dispatch (effects (generate single_cfg smtp_down_world plain_request Map.empty))
   \<and> dispatch (effects (generate single_cfg smtp_down_world plain_request Map.empty)) =
       [Call 1 ''k1'', Sleep 1]"
proof -
  have h: "SendWarningEmail 1 False \<in> set (effects (generate single_cfg smtp_down_world plain_request Map.empty))"
    by (simp add: smtp_down_effects)
  have u: "upstream always429_world = upstream smtp_down_world"
    by (simp add: smtp_down_world_def)
  have d: "dispatch (effects (generate single_cfg smtp_down_world plain_request Map.empty)) =
       [Call 1 ''k1'', Sleep 1]"
    by (simp add: smtp_down_effects)
  from alert_failure_keeps_walk [OF h] h u d plain_builds show ?thesis
    by blast
qed

subsection \<open>C10: without SMTP configuration no warning is ever recorded\<close>

text \<open>
  Claim C10. If, for every request of a sequence, the SMTP host, user or password is
  missing or there is no recipient, then \<^verbatim>\<open>send_warning_email\<close> returns False without
  opening an SMTP session, the table stays as it was, every request runs as if it were
  the first, and each request that meets a rate limit on a watched index outside the
  table attempts the warning again, once, and fails.
\<close>

theorem smtp_unconfigured_never_marks:
  assumes "\<forall>(w, req) \<in> set rs. \<not> can_send cfg req"
  shows "snd (serve cfg rs db) = db
     \<and> fst (serve cfg rs db) = map (\<lambda>(w, req). generate cfg w req db) rs
     \<and> (\<forall>(w, req) \<in> set rs. \<forall>idx.
          send_warning_email cfg w idx (py_or (email_to req) (DEFAULT_WARNING_TO cfg)) = (Inr False, []))
     \<and> (\<forall>s \<in> set (fst (serve cfg rs db)). no_delivery (effects s))
     \<and> (\<forall>(w, req) \<in> set rs. \<forall>idx k.
          idx \<in> WATCH_KEYS_INDICES cfg \<and> idx \<notin> get_notified_keys db
          \<and> Call idx k \<in> set (effects (generate cfg w req db))
          \<and> classify (upstream w idx k) = RateLimited \<longrightarrow>
          alerts idx (effects (generate cfg w req db)) = 1
          \<and> SendWarningEmail idx False \<in> set (effects (generate cfg w req db)))"
proof -
  have serve: "serve cfg rs db = (map (\<lambda>(w, req). generate cfg w req db) rs, db)"
    using assms by (rule serve_cannot)
  have guard: "send_warning_email cfg w idx (py_or (email_to req) (DEFAULT_WARNING_TO cfg)) = (Inr False, [])"
    if "(w, req) \<in> set rs" for w req idx
    using that assms by (auto simp add: can_send_def send_warning_email_def)
  have quiet: "no_delivery (effects s)" if "s \<in> set (fst (serve cfg rs db))" for s
    using that assms generate_cannot by (auto simp add: serve)
  have again: "alerts idx (effects (generate cfg w req db)) = 1
      \<and> SendWarningEmail idx False \<in> set (effects (generate cfg w req db))"
    if "(w, req) \<in> set rs" and "idx \<in> WATCH_KEYS_INDICES cfg \<and> idx \<notin> get_notified_keys db
          \<and> Call idx k \<in> set (effects (generate cfg w req db))
          \<and> classify (upstream w idx k) = RateLimited" for w req idx k
  proof -
    from that(2) have one: "alerts idx (effects (generate cfg w req db)) = 1"
      using generate_alerts_once by blast
    from that(1) assms have quiet: "no_delivery (effects (generate cfg w req db))"
      using generate_cannot by blast
    then have "SendWarningEmailRaised idx \<notin> set (effects (generate cfg w req db))"
      by (rule no_delivery_not_raised)
    with one obtain b where b: "SendWarningEmail idx b \<in> set (effects (generate cfg w req db))"
      using alerts_zero_iff [of idx "effects (generate cfg w req db)"] by auto
    from quiet have "SendWarningEmail idx True \<notin> set (effects (generate cfg w req db))"
      by (rule no_delivery_not_sent)
    with b have "SendWarningEmail idx False \<in> set (effects (generate cfg w req db))"
      by (cases b) auto
    with one show ?thesis by simp
  qed
  show ?thesis
  proof (intro conjI ballI allI impI)
    show "snd (serve cfg rs db) = db"
      by (simp add: serve)
    show "fst (serve cfg rs db) = map (\<lambda>(w, req). generate cfg w req db) rs"
      by (simp add: serve)
  next
    fix r
    assume mem: "r \<in> set rs"
    obtain w req where r: "r = (w, req)"
      by (cases r)
    with mem show "case r of (w, req) \<Rightarrow> \<forall>idx.
        send_warning_email cfg w idx (py_or (email_to req) (DEFAULT_WARNING_TO cfg)) = (Inr False, [])"
      using guard by simp
  next
    fix s
    assume "s \<in> set (fst (serve cfg rs db))"
    then show "no_delivery (effects s)"
      by (rule quiet)
  next
    fix r
    assume mem: "r \<in> set rs"
    obtain w req where r: "r = (w, req)"
      by (cases r)
    with mem show "case r of (w, req) \<Rightarrow> \<forall>idx k.
          idx \<in> WATCH_KEYS_INDICES cfg \<and> idx \<notin> get_notified_keys db
          \<and> Call idx k \<in> set (effects (generate cfg w req db))
          \<and> classify (upstream w idx k) = RateLimited \<longrightarrow>
          alerts idx (effects (generate cfg w req db)) = 1
          \<and> SendWarningEmail idx False \<in> set (effects (generate cfg w req db))"
      using again [of w req] by simp blast
  qed
qed

theorem smtp_unconfigured_never_marks_witness:
  "\<not> can_send no_smtp_cfg plain_request
   \<and> get_notified_keys (snd (serve no_smtp_cfg
        [(always429_world, plain_request), (always429_world, plain_request)] Map.empty)) = {}
   \<and> map effects (fst (serve no_smtp_cfg
        [(always429_world, plain_request), (always429_world, plain_request)] Map.empty)) =
       [[Call 1 ''k1'', SendWarningEmail 1 False, Sleep 1],
        [Call 1 ''k1'', SendWarningEmail 1 False, Sleep 1]]"
proof -
  have c: "\<not> can_send no_smtp_cfg plain_request"
    by (simp add: can_send_def no_smtp_cfg_def)
  then have h: "\<forall>(w, req) \<in> set [(always429_world, plain_request), (always429_world, plain_request)].
      \<not> can_send no_smtp_cfg req"
    by simp
  from smtp_unconfigured_never_marks [OF h, of Map.empty]
  have "snd (serve no_smtp_cfg
        [(always429_world, plain_request), (always429_world, plain_request)] Map.empty) = Map.empty"
    and "fst (serve no_smtp_cfg
        [(always429_world, plain_request), (always429_world, plain_request)] Map.empty) =
      map (\<lambda>(w, req). generate no_smtp_cfg w req Map.empty)
        [(always429_world, plain_request), (always429_world, plain_request)]"
    by blast+
  with c show ?thesis
    by (simp add: no_smtp_effects get_notified_keys_def)
qed

end
